theory Spec2Isabelle
  imports Main
begin

section \<open>Strings of the runtime\<close>

text \<open>
  A JavaScript string is a sequence of code units. The model covers the code units
  0..255 (ASCII and Latin-1), one \<^typ>\<open>char\<close> each; \<open>code c\<close> is the number of
  the code unit. On this range \<open>toLowerCase\<close> maps a string to a string of the same
  range, so the functions below are the runtime's functions restricted to it.
\<close>

definition code :: "char \<Rightarrow> nat" where
  "code c = of_char c"

text \<open>\<open>\s\<close> of a regular expression and the characters \<open>trim()\<close> removes:
  TAB, LF, VT, FF, CR, SPACE and NO-BREAK SPACE (the others are above 255).\<close>

definition isSpace :: "char \<Rightarrow> bool" where
  "isSpace c = (code c \<in> {9, 10, 11, 12, 13, 32, 160})"

text \<open>\<open>\d\<close> and \<open>[0-9]\<close>.\<close>

definition isDigit :: "char \<Rightarrow> bool" where
  "isDigit c = (48 \<le> code c \<and> code c \<le> 57)"

text \<open>\<open>[a-z]\<close>.\<close>

definition isLowerAZ :: "char \<Rightarrow> bool" where
  "isLowerAZ c = (97 \<le> code c \<and> code c \<le> 122)"

text \<open>\<open>String.prototype.toLowerCase\<close>: A-Z and the Latin-1 capitals
  (U+00C0..U+00DE without the multiplication sign U+00D7) move up by 32.\<close>

definition toLowerChar :: "char \<Rightarrow> char" where
  "toLowerChar c =
     (if (65 \<le> code c \<and> code c \<le> 90) \<or> (192 \<le> code c \<and> code c \<le> 222 \<and> code c \<noteq> 215)
      then char_of (code c + 32) else c)"

definition toLowerCase :: "string \<Rightarrow> string" where
  "toLowerCase s = map toLowerChar s"

text \<open>\<open>String.prototype.trim\<close>.\<close>

definition trim :: "string \<Rightarrow> string" where
  "trim s = rev (dropWhile isSpace (rev (dropWhile isSpace s)))"

section \<open>Event: slug derivation\<close>

text \<open>\<open>.replace(/[^a-z0-9\s-]/g, "")\<close>: every character outside the class is deleted.\<close>

definition slugKeep :: "char \<Rightarrow> bool" where
  "slugKeep c = (isLowerAZ c \<or> isDigit c \<or> isSpace c \<or> c = CHR ''-'')"

definition stripNonSlug :: "string \<Rightarrow> string" where
  "stripNonSlug s = filter slugKeep s"

text \<open>\<open>.replace(/\s+/g, "-")\<close>: scanning from the left, each maximal run of
  whitespace is replaced by one hyphen.\<close>

function collapseSpaces :: "string \<Rightarrow> string" where
  "collapseSpaces [] = []"
| "collapseSpaces (c # cs) =
     (if isSpace c then CHR ''-'' # collapseSpaces (dropWhile isSpace cs)
      else c # collapseSpaces cs)"
  by pat_completeness auto
termination
  by (relation "measure length") (auto simp: length_dropWhile_le less_Suc_eq_le)

text \<open>The chain of line 49 to 53 of event.model.ts.\<close>

definition slugify :: "string \<Rightarrow> string" where
  "slugify title = collapseSpaces (trim (stripNonSlug (toLowerCase title)))"


section \<open>Decimal numerals\<close>

definition digitChar :: "nat \<Rightarrow> char" where
  "digitChar d = ''0123456789'' ! d"

definition digitVal :: "char \<Rightarrow> nat" where
  "digitVal c = code c - 48"

text \<open>\<open>String(n)\<close> for a non-negative integer: the decimal digits, no leading zero.\<close>

fun numberToString :: "nat \<Rightarrow> string" where
  "numberToString n =
     (if n < 10 then [digitChar n] else numberToString (n div 10) @ [digitChar (n mod 10)])"

declare numberToString.simps [simp del]

text \<open>\<open>s.padStart(k, c)\<close> for a one-character filler.\<close>

definition padStart :: "nat \<Rightarrow> char \<Rightarrow> string \<Rightarrow> string" where
  "padStart k c s = replicate (k - length s) c @ s"

text \<open>\<open>parseInt(s, 10)\<close> on a string of decimal digits (the groups of the time
  pattern are such strings, and never empty).\<close>

definition parseInt10 :: "string \<Rightarrow> nat" where
  "parseInt10 s = foldl (\<lambda>a c. 10 * a + digitVal c) 0 s"

text \<open>A field of fixed width, as \<open>toISOString\<close> prints year, month and day.\<close>

fun digitsN :: "nat \<Rightarrow> nat \<Rightarrow> string" where
  "digitsN 0 n = []"
| "digitsN (Suc k) n = digitsN k (n div 10) @ [digitChar (n mod 10)]"

section \<open>Dates of the runtime\<close>

text \<open>
  Time values are milliseconds since 1970-01-01T00:00:00Z, days are counted from the
  same instant. The functions carry the names of the ECMAScript specification
  (\<open>Day\<close>, \<open>DaysInYear\<close>, \<open>DayFromYear\<close>, \<open>YearFromTime\<close>, \<open>MonthFromTime\<close>,
  \<open>DateFromTime\<close>, \<open>MakeDay\<close>, \<open>TimeClip\<close>); integer division rounds down, as
  \<open>floor\<close> does there.
\<close>

definition msPerDay :: int where
  "msPerDay = 86400000"

definition Day :: "int \<Rightarrow> int" where
  "Day t = t div msPerDay"

definition TimeWithinDay :: "int \<Rightarrow> int" where
  "TimeWithinDay t = t mod msPerDay"

definition DaysInYear :: "int \<Rightarrow> int" where
  "DaysInYear y =
     (if y mod 4 \<noteq> 0 then 365
      else if y mod 100 \<noteq> 0 then 366
      else if y mod 400 \<noteq> 0 then 365
      else 366)"

definition DayFromYear :: "int \<Rightarrow> int" where
  "DayFromYear y =
     365 * (y - 1970) + (y - 1969) div 4 - (y - 1901) div 100 + (y - 1601) div 400"

text \<open>
  The year of a day: the specification asks for the largest \<open>y\<close> with
  \<open>DayFromYear y \<le> d\<close>. It is computed over the cycles of 400, 100, 4 and 1 years,
  counted from 0001-01-01 (day \<open>-719162\<close>).
\<close>

definition YearFromDay :: "int \<Rightarrow> int" where
  "YearFromDay d =
     (let d0 = d + 719162;
          n400 = d0 div 146097; d1 = d0 mod 146097;
          n100 = min 3 (d1 div 36524); d2 = d1 - 36524 * n100;
          n4 = d2 div 1461; d3 = d2 mod 1461;
          n1 = min 3 (d3 div 365)
      in 400 * n400 + 100 * n100 + 4 * n4 + n1 + 1)"

definition DayWithinYear :: "int \<Rightarrow> int" where
  "DayWithinYear d = d - DayFromYear (YearFromDay d)"

definition InLeapYear :: "int \<Rightarrow> int" where
  "InLeapYear y = (if DaysInYear y = 366 then 1 else 0)"

text \<open>The first day of month \<open>m\<close> (0 = January) within a year, \<open>l\<close> being 1 in a
  leap year and 0 otherwise.\<close>

definition monthStart :: "int \<Rightarrow> nat \<Rightarrow> int" where
  "monthStart l m =
     (if m = 0 then 0 else if m = 1 then 31 else if m = 2 then 59 + l
      else if m = 3 then 90 + l else if m = 4 then 120 + l else if m = 5 then 151 + l
      else if m = 6 then 181 + l else if m = 7 then 212 + l else if m = 8 then 243 + l
      else if m = 9 then 273 + l else if m = 10 then 304 + l else if m = 11 then 334 + l
      else 365 + l)"

text \<open>\<open>MonthFromTime\<close>, from the day within the year.\<close>

definition MonthFromDayWithinYear :: "int \<Rightarrow> int \<Rightarrow> nat" where
  "MonthFromDayWithinYear l w =
     (if w < 31 then 0 else if w < 59 + l then 1 else if w < 90 + l then 2
      else if w < 120 + l then 3 else if w < 151 + l then 4 else if w < 181 + l then 5
      else if w < 212 + l then 6 else if w < 243 + l then 7 else if w < 273 + l then 8
      else if w < 304 + l then 9 else if w < 334 + l then 10 else 11)"

definition MonthFromDay :: "int \<Rightarrow> nat" where
  "MonthFromDay d = MonthFromDayWithinYear (InLeapYear (YearFromDay d)) (DayWithinYear d)"

definition DateFromDay :: "int \<Rightarrow> int" where
  "DateFromDay d =
     DayWithinYear d - monthStart (InLeapYear (YearFromDay d)) (MonthFromDay d) + 1"

text \<open>\<open>MakeDay(year, month, date)\<close> for a month in 0..11.\<close>

definition MakeDay :: "int \<Rightarrow> nat \<Rightarrow> int \<Rightarrow> int" where
  "MakeDay y m dt = DayFromYear y + monthStart (InLeapYear y) m + dt - 1"

definition DaysInMonth :: "int \<Rightarrow> nat \<Rightarrow> int" where
  "DaysInMonth y m = monthStart (InLeapYear y) (Suc m) - monthStart (InLeapYear y) m"

text \<open>\<open>TimeClip\<close>: a time value beyond 8.64e15 ms is NaN (here \<open>None\<close>).\<close>

definition TimeClip :: "int \<Rightarrow> int option" where
  "TimeClip t = (if \<bar>t\<bar> \<le> 8640000000000000 then Some t else None)"

subsection \<open>Printing: \<open>Date.prototype.toISOString\<close>\<close>

definition isoYearString :: "int \<Rightarrow> string" where
  "isoYearString y =
     (if 0 \<le> y \<and> y \<le> 9999 then digitsN 4 (nat y)
      else (if y < 0 then CHR ''-'' else CHR ''+'') # digitsN 6 (nat \<bar>y\<bar>))"

definition isoDateString :: "int \<Rightarrow> string" where
  "isoDateString d =
     isoYearString (YearFromDay d) @ ''-'' @ digitsN 2 (Suc (MonthFromDay d))
       @ ''-'' @ digitsN 2 (nat (DateFromDay d))"

definition isoTimeString :: "int \<Rightarrow> string" where
  "isoTimeString ms =
     digitsN 2 (nat (ms div 3600000)) @ '':'' @ digitsN 2 (nat (ms div 60000 mod 60))
       @ '':'' @ digitsN 2 (nat (ms div 1000 mod 60)) @ ''.'' @ digitsN 3 (nat (ms mod 1000))"

definition toISOString :: "int \<Rightarrow> string" where
  "toISOString t = isoDateString (Day t) @ ''T'' @ isoTimeString (TimeWithinDay t) @ ''Z''"

subsection \<open>Reading: the date-only forms of the Date Time String Format\<close>

text \<open>
  \<open>YYYY-MM-DD\<close> and the expanded years \<open>+YYYYYY-MM-DD\<close>, \<open>-YYYYYY-MM-DD\<close>
  (\<open>-000000\<close> is not a year) denote midnight UTC of that day. A string of another
  shape, or one whose month or day does not exist, is left to the implementation
  (\<open>None\<close> here means: not decided by this function).
\<close>

definition isoYear :: "string \<Rightarrow> int option" where
  "isoYear ys =
     (case ys of
        [] \<Rightarrow> None
      | c # ds \<Rightarrow>
          if c = CHR ''+'' \<and> length ds = 6 \<and> list_all isDigit ds then Some (int (parseInt10 ds))
          else if c = CHR ''-'' \<and> length ds = 6 \<and> list_all isDigit ds \<and> parseInt10 ds \<noteq> 0
            then Some (- int (parseInt10 ds))
          else if length ys = 4 \<and> list_all isDigit ys then Some (int (parseInt10 ys))
          else None)"

definition parseISODate :: "string \<Rightarrow> int option" where
  "parseISODate s =
     (case drop (length s - 6) s of
        [h1, m1, m2, h2, d1, d2] \<Rightarrow>
          if h1 = CHR ''-'' \<and> h2 = CHR ''-'' \<and> list_all isDigit [m1, m2, d1, d2] then
            (case isoYear (take (length s - 6) s) of
               None \<Rightarrow> None
             | Some y \<Rightarrow>
                 (let m = parseInt10 [m1, m2]; d = int (parseInt10 [d1, d2])
                  in if 1 \<le> m \<and> m \<le> 12 \<and> 1 \<le> d \<and> d \<le> DaysInMonth y (m - 1)
                     then Some (MakeDay y (m - 1) d * msPerDay) else None))
          else None
      | _ \<Rightarrow> None)"

text \<open>
  \<open>new Date(s).getTime()\<close>, with NaN as \<open>None\<close>. The parameter \<open>impl\<close> is the
  runtime's reading of every string that \<open>parseISODate\<close> does not decide (the
  specification leaves those to the implementation, which may use the local time zone).
\<close>

definition Date_getTime :: "(string \<Rightarrow> int option) \<Rightarrow> string \<Rightarrow> int option" where
  "Date_getTime impl s =
     (case parseISODate s of
        Some t \<Rightarrow> TimeClip t
      | None \<Rightarrow> (case impl s of Some t \<Rightarrow> TimeClip t | None \<Rightarrow> None))"

section \<open>Errors\<close>

text \<open>One constructor for each place where the repository makes an error with
  \<open>new Error(...)\<close>, carrying what the message quotes, and one for each failure of
  the framework and of the storage layer that the hooks can meet.
  \<open>EventDoesNotExist\<close> and \<open>InvalidEventIdOrDatabaseError\<close> are the two errors
  of the hook of part_000 (line 53 and 58), \<open>ReferencedEventDoesNotExist\<close> is the
  error of the hook of booking.model.ts (line 44). \<open>Renamed n e\<close> is the error
  \<open>e\<close> after the assignment \<open>e.name = n\<close>.\<close>

type_synonym objectId = nat

datatype error =
    InvalidDateValue string
  | InvalidTimeFormat string
  | TimeOutOfRange string
  | EmailRequired
  | EmailNotValid string
  | EventDoesNotExist objectId
  | InvalidEventIdOrDatabaseError
  | ReferencedEventDoesNotExist objectId
  | Renamed string error
  | DatabaseError
  | DuplicateKey "string list"
  | DocumentNotFound objectId

text \<open>
  Whether the \<open>name\<close> of an error is \<open>ValidationError\<close>. An error made by
  \<open>new Error(...)\<close> is named \<open>Error\<close> until it is renamed. A failed validation
  of a field is raised by the framework under the name \<open>ValidationError\<close>. The
  errors of the storage layer carry other names.
\<close>

fun isValidationError :: "error \<Rightarrow> bool" where
  "isValidationError (Renamed n _) = (n = ''ValidationError'')"
| "isValidationError EmailRequired = True"
| "isValidationError (EmailNotValid _) = True"
| "isValidationError (InvalidDateValue _) = False"
| "isValidationError (InvalidTimeFormat _) = False"
| "isValidationError (TimeOutOfRange _) = False"
| "isValidationError (EventDoesNotExist _) = False"
| "isValidationError InvalidEventIdOrDatabaseError = False"
| "isValidationError (ReferencedEventDoesNotExist _) = False"
| "isValidationError DatabaseError = False"
| "isValidationError (DuplicateKey _) = False"
| "isValidationError (DocumentNotFound _) = False"

text \<open>Modelled from the spec: the classes of section 7 for the errors of the storage
  layer. A violated uniqueness constraint is a constraint violation, an unreachable
  database is a connection error. Of the other errors, those named
  \<open>ValidationError\<close> are validation errors.\<close>

datatype error_class = ValidationError | ConstraintViolation | ConnectionError | Unclassified

fun error_class_of :: "error \<Rightarrow> error_class" where
  "error_class_of (DuplicateKey _) = ConstraintViolation"
| "error_class_of DatabaseError = ConnectionError"
| "error_class_of err = (if isValidationError err then ValidationError else Unclassified)"

section \<open>Documents\<close>

text \<open>A document in memory: its fields, whether it has never been stored
  (\<open>this.isNew\<close>) and the paths changed since it was loaded
  (\<open>this.isModified(path)\<close>).\<close>

record 'a document =
  content :: 'a
  isNew :: bool
  modifiedPaths :: "string list"

definition isModified :: "'a document \<Rightarrow> string \<Rightarrow> bool" where
  "isModified doc path = (path \<in> set (modifiedPaths doc))"

text \<open>
  An assignment \<open>this.path = v\<close>: the value is stored, and the path is marked as
  modified when the document is new or the value differs from the one the path had. A
  path is listed once, after the paths marked before it.
\<close>

definition markModified :: "string \<Rightarrow> 'a document \<Rightarrow> 'a document" where
  "markModified path doc =
     (if path \<in> set (modifiedPaths doc) then doc
      else doc\<lparr>modifiedPaths := modifiedPaths doc @ [path]\<rparr>)"

definition assign ::
  "string \<Rightarrow> ('a \<Rightarrow> 'v) \<Rightarrow> ('v \<Rightarrow> 'a \<Rightarrow> 'a) \<Rightarrow> 'v \<Rightarrow> 'a document \<Rightarrow> 'a document" where
  "assign path get put v doc =
     (let doc1 = doc\<lparr>content := put v (content doc)\<rparr>
      in if isNew doc \<or> get (content doc) \<noteq> v then markModified path doc1 else doc1)"

section \<open>Event: the save hook\<close>

text \<open>\<open>IEvent\<close>; its field \<open>image\<close> is named \<open>image_path\<close> here.\<close>

record event =
  title :: string
  slug :: string
  description :: string
  overview :: string
  image_path :: string
  venue :: string
  location :: string
  date :: string
  time :: string
  mode :: string
  audience :: string
  agenda :: "string list"
  organizer :: string
  tags :: "string list"
  createdAt :: int
  updatedAt :: int

text \<open>Lines 57 to 61: \<open>new Date(this.date)\<close>, the NaN test, and
  \<open>toISOString().split("T")[0]\<close>.\<close>

definition normalizeDate :: "(string \<Rightarrow> int option) \<Rightarrow> string \<Rightarrow> error + string" where
  "normalizeDate impl d =
     (case Date_getTime impl d of
        None \<Rightarrow> Inl (InvalidDateValue d)
      | Some t \<Rightarrow> Inr (takeWhile (\<lambda>c. c \<noteq> CHR ''T'') (toISOString t)))"

subsection \<open>The time pattern\<close>

text \<open>
  \<open>/^(\d{1,2}):(\d{2})(?::\d{2})?(?:\s*(AM|PM))?$/i\<close>, read from the left. Each
  function matches the rest of the pattern against the rest of the input; a greedy
  choice that fails is followed by the shorter one, as the backtracking matcher does.
  The result holds the groups 1, 2 and 3 (group 3 is \<open>None\<close> when it took no part).
\<close>

text \<open>With the flag \<open>i\<close> a pattern letter matches itself and its lower case.\<close>

definition toUpperChar :: "char \<Rightarrow> char" where
  "toUpperChar c = (if 97 \<le> code c \<and> code c \<le> 122 then char_of (code c - 32) else c)"

text \<open>\<open>String.prototype.toUpperCase\<close> on a string of ASCII characters (group 3 is
  one).\<close>

definition toUpperCase :: "string \<Rightarrow> string" where
  "toUpperCase s = map toUpperChar s"

text \<open>\<open>(?:\s*(AM|PM))?$\<close>\<close>

definition matchMeridiem :: "string \<Rightarrow> string option option" where
  "matchMeridiem r =
     (let a = dropWhile isSpace r
      in if map toUpperChar a = ''AM'' \<or> map toUpperChar a = ''PM'' then Some (Some a)
         else if r = [] then Some None
         else None)"

text \<open>\<open>(?::\d{2})?\<close> and what follows.\<close>

definition matchSeconds :: "string \<Rightarrow> string option option" where
  "matchSeconds r =
     (case r of
        c # s1 # s2 # r' \<Rightarrow>
          if c = CHR '':'' \<and> isDigit s1 \<and> isDigit s2 then
            (case matchMeridiem r' of Some g \<Rightarrow> Some g | None \<Rightarrow> matchMeridiem r)
          else matchMeridiem r
      | _ \<Rightarrow> matchMeridiem r)"

text \<open>\<open>:(\d{2})\<close> and what follows, after an hour of \<open>k\<close> digits.\<close>

definition matchHour :: "nat \<Rightarrow> string \<Rightarrow> (string \<times> string \<times> string option) option" where
  "matchHour k s =
     (let h = take k s; r = drop k s
      in if length h = k \<and> list_all isDigit h then
           (case r of
              c # m1 # m2 # r' \<Rightarrow>
                if c = CHR '':'' \<and> isDigit m1 \<and> isDigit m2
                then map_option (\<lambda>g. (h, [m1, m2], g)) (matchSeconds r')
                else None
            | _ \<Rightarrow> None)
         else None)"

text \<open>\<open>(\d{1,2})\<close> takes two digits when it can.\<close>

definition matchTime :: "string \<Rightarrow> (string \<times> string \<times> string option) option" where
  "matchTime s = (case matchHour 2 s of Some g \<Rightarrow> Some g | None \<Rightarrow> matchHour 1 s)"

text \<open>Lines 64 to 85.\<close>

definition normalizeTime :: "string \<Rightarrow> error + string" where
  "normalizeTime t =
     (case matchTime (trim t) of
        None \<Rightarrow> Inl (InvalidTimeFormat t)
      | Some (g1, g2, g3) \<Rightarrow>
          (let hours0 = parseInt10 g1;
               minutes = g2;
               meridiem = map_option toUpperCase g3;
               hours1 = (if meridiem = Some ''PM'' \<and> hours0 \<noteq> 12 then hours0 + 12 else hours0);
               hours = (if meridiem = Some ''AM'' \<and> hours1 = 12 then 0 else hours1)
           in if hours > 23 \<or> parseInt10 minutes > 59 then Inl (TimeOutOfRange t)
              else Inr (padStart 2 CHR ''0'' (numberToString hours) @ '':'' @ minutes)))"

subsection \<open>The hook\<close>

text \<open>
  \<open>eventSchema.pre("save", ...)\<close>: slug, then date, then time; the first failure
  aborts the save. The result is the document handed on to be stored: the three
  assignments \<open>this.slug = ...\<close>, \<open>this.date = ...\<close> and \<open>this.time = ...\<close> change
  its fields and mark their paths.
\<close>

definition eventSchema_pre_save ::
  "(string \<Rightarrow> int option) \<Rightarrow> event document \<Rightarrow> error + event document" where
  "eventSchema_pre_save impl doc =
     (let doc1 = (if isNew doc \<or> isModified doc ''title''
                  then assign ''slug'' slug (\<lambda>v e. e\<lparr>slug := v\<rparr>)
                         (slugify (title (content doc))) doc
                  else doc)
      in case normalizeDate impl (date (content doc1)) of
           Inl err \<Rightarrow> Inl err
         | Inr d \<Rightarrow>
             (let doc2 = assign ''date'' date (\<lambda>v e. e\<lparr>date := v\<rparr>) d doc1
              in case normalizeTime (time (content doc2)) of
                   Inl err \<Rightarrow> Inl err
                 | Inr t \<Rightarrow> Inr (assign ''time'' time (\<lambda>v e. e\<lparr>time := v\<rparr>) t doc2)))"

section \<open>Booking\<close>

record booking =
  oid :: objectId
  eventId :: objectId
  email :: string
  bookedAt :: int
  changedAt :: int

text \<open>The fields \<open>_id\<close>, \<open>createdAt\<close> and \<open>updatedAt\<close> of a Booking are named
  \<open>oid\<close>, \<open>bookedAt\<close> and \<open>changedAt\<close> here, apart from those of an Event.\<close>

subsection \<open>Field validation\<close>

definition isAlnum :: "char \<Rightarrow> bool" where
  "isAlnum c = (isLowerAZ c \<or> (65 \<le> code c \<and> code c \<le> 90) \<or> isDigit c)"

text \<open>The class \<open>[a-zA-Z0-9.!#$%&'*+/=?^_`{|}~-]\<close> of the local part.\<close>

definition isLocalChar :: "char \<Rightarrow> bool" where
  "isLocalChar c =
     (isAlnum c \<or>
      code c \<in> {46, 33, 35, 36, 37, 38, 39, 42, 43, 47, 61, 63, 94, 95, 96, 123, 124, 125, 126, 45})"

text \<open>\<open>[a-zA-Z0-9](?:[a-zA-Z0-9-]{0,61}[a-zA-Z0-9])?\<close>: a label of 1 to 63
  characters, letters, digits and hyphens, with no hyphen at either end.\<close>

definition isLabel :: "string \<Rightarrow> bool" where
  "isLabel l =
     (1 \<le> length l \<and> length l \<le> 63 \<and> isAlnum (hd l) \<and> isAlnum (last l)
      \<and> list_all (\<lambda>c. isAlnum c \<or> c = CHR ''-'') l)"

fun splitOn :: "char \<Rightarrow> string \<Rightarrow> string list" where
  "splitOn sep [] = [] # []"
| "splitOn sep (c # cs) =
     (if c = sep then [] # splitOn sep cs
      else (case splitOn sep cs of p # ps \<Rightarrow> (c # p) # ps | [] \<Rightarrow> [c] # []))"

text \<open>The validator of the schema in part_000 (line 29 to 33): a local part, \<open>@\<close>,
  and labels separated by dots.\<close>

definition emailRegex_test :: "string \<Rightarrow> bool" where
  "emailRegex_test v =
     (let local = takeWhile (\<lambda>c. c \<noteq> CHR ''@'') v;
          rest = dropWhile (\<lambda>c. c \<noteq> CHR ''@'') v
      in local \<noteq> [] \<and> list_all isLocalChar local \<and> rest \<noteq> []
         \<and> list_all isLabel (splitOn CHR ''.'' (tl rest)))"

text \<open>\<open>EMAIL_REGEX = /^[^\s@]+@[^\s@]+\.[^\s@]+$/\<close> of booking.model.ts: no
  whitespace, one \<open>@\<close> with something before it, and after it a dot that is neither
  the first nor the last character.\<close>

definition EMAIL_REGEX_test :: "string \<Rightarrow> bool" where
  "EMAIL_REGEX_test v =
     (let local = takeWhile (\<lambda>c. c \<noteq> CHR ''@'') v;
          rest = dropWhile (\<lambda>c. c \<noteq> CHR ''@'') v;
          dom = tl rest
      in local \<noteq> [] \<and> rest \<noteq> [] \<and> \<not> list_ex isSpace v \<and> CHR ''@'' \<notin> set dom
         \<and> CHR ''.'' \<in> set (butlast (tl dom)))"

text \<open>The setters \<open>trim: true\<close> and \<open>lowercase: true\<close>, applied when the field is
  assigned.\<close>

definition setEmail :: "string \<Rightarrow> string" where
  "setEmail raw = toLowerCase (trim raw)"

text \<open>The validation the framework runs before the hooks of a save: \<open>required\<close>
  and the validator of \<open>email\<close>.\<close>

definition validateBooking :: "(string \<Rightarrow> bool) \<Rightarrow> booking \<Rightarrow> error option" where
  "validateBooking validator b =
     (if email b = [] then Some EmailRequired
      else if \<not> validator (email b) then Some (EmailNotValid (email b))
      else None)"

subsection \<open>The database\<close>

text \<open>
  Modelled from the spec: the storage layer, which is not part of the repository.
  The Event collection is known by the identities of its documents. A query or a
  write fails when the database cannot be reached. A write that would give two
  documents the same key under a unique index is rejected (section 6 and 7).
\<close>

record database =
  reachable :: bool
  events :: "objectId list"
  bookings :: "booking list"

text \<open>\<open>Event.findById(id).select('_id')\<close> and \<open>Event.exists({_id: id})\<close>.\<close>

definition Event_findById :: "database \<Rightarrow> objectId \<Rightarrow> error + objectId option" where
  "Event_findById db i =
     (if \<not> reachable db then Inl DatabaseError
      else if i \<in> set (events db) then Inr (Some i) else Inr None)"

datatype fieldValue = IdValue objectId | StringValue string | TimeValue int

fun bookingField :: "booking \<Rightarrow> string \<Rightarrow> fieldValue option" where
  "bookingField b path =
     (if path = ''_id'' then Some (IdValue (oid b))
      else if path = ''eventId'' then Some (IdValue (eventId b))
      else if path = ''email'' then Some (StringValue (email b))
      else if path = ''createdAt'' then Some (TimeValue (bookedAt b))
      else if path = ''updatedAt'' then Some (TimeValue (changedAt b))
      else None)"

text \<open>An index: its paths and whether it is unique.\<close>

type_synonym index = "string list \<times> bool"

definition indexKey :: "string list \<Rightarrow> booking \<Rightarrow> fieldValue option list" where
  "indexKey paths b = map (bookingField b) paths"

text \<open>The first unique index under which \<open>b\<close> has the key of a stored row.\<close>

fun violatedIndex :: "index list \<Rightarrow> booking list \<Rightarrow> booking \<Rightarrow> string list option" where
  "violatedIndex [] rows b = None"
| "violatedIndex ((paths, unique) # ixs) rows b =
     (if unique \<and> indexKey paths b \<in> set (map (indexKey paths) rows) then Some paths
      else violatedIndex ixs rows b)"

text \<open>The indexes of the two schemas: line 68 to 77 of part_000, and the
  \<open>index: true\<close> of booking.model.ts (line 23); \<open>_id\<close> is unique in every
  collection.\<close>

definition BookingSchema_indexes :: "index list" where
  "BookingSchema_indexes =
     [([''_id''], True),
      ([''eventId''], False),
      ([''eventId'', ''createdAt''], False),
      ([''email''], False),
      ([''eventId'', ''email''], True)]"

definition bookingSchema_indexes :: "index list" where
  "bookingSchema_indexes = [([''_id''], True), ([''eventId''], False)]"

text \<open>Storing a document: an insert when it is new, otherwise an update of the
  modified paths of the row with its \<open>_id\<close>. The timestamps are set from the clock
  \<open>now\<close>. A document that is not new and has no modified path is not written: the
  row is looked up and stays as it is, \<open>updatedAt\<close> included.\<close>

definition insertBooking :: "index list \<Rightarrow> int \<Rightarrow> database \<Rightarrow> booking \<Rightarrow> error + database" where
  "insertBooking ixs now db b =
     (if \<not> reachable db then Inl DatabaseError
      else let row = b\<lparr>bookedAt := now, changedAt := now\<rparr>
           in case violatedIndex ixs (bookings db) row of
                Some paths \<Rightarrow> Inl (DuplicateKey paths)
              | None \<Rightarrow> Inr (db\<lparr>bookings := bookings db @ [row]\<rparr>))"

text \<open>The row an update writes: the modified paths take the values of the document,
  \<open>updatedAt\<close> the clock. An update is sent only for a document with a modified
  path.\<close>

definition updatedRow :: "int \<Rightarrow> booking document \<Rightarrow> booking \<Rightarrow> booking" where
  "updatedRow now doc old =
     old\<lparr>eventId := (if isModified doc ''eventId'' then eventId (content doc) else eventId old),
         email := (if isModified doc ''email'' then email (content doc) else email old),
         changedAt := now\<rparr>"

definition updateBooking ::
  "index list \<Rightarrow> int \<Rightarrow> database \<Rightarrow> booking document \<Rightarrow> error + database" where
  "updateBooking ixs now db doc =
     (if \<not> reachable db then Inl DatabaseError
      else case filter (\<lambda>r. oid r = oid (content doc)) (bookings db) of
             [] \<Rightarrow> Inl (DocumentNotFound (oid (content doc)))
           | old # _ \<Rightarrow>
               if modifiedPaths doc = [] then Inr db
               else
                 (let row = updatedRow now doc old;
                      others = filter (\<lambda>r. oid r \<noteq> oid row) (bookings db)
                  in case violatedIndex ixs others row of
                       Some paths \<Rightarrow> Inl (DuplicateKey paths)
                     | None \<Rightarrow>
                         Inr (db\<lparr>bookings :=
                                map (\<lambda>r. if oid r = oid row then row else r) (bookings db)\<rparr>)))"

definition persistBooking ::
  "index list \<Rightarrow> int \<Rightarrow> database \<Rightarrow> booking document \<Rightarrow> error + database" where
  "persistBooking ixs now db doc =
     (if isNew doc then insertBooking ixs now db (content doc)
      else updateBooking ixs now db doc)"

subsection \<open>The hooks\<close>

text \<open>
  \<open>BookingSchema.pre('save', ...)\<close> of part_000 (line 44 to 65). The result is the
  error passed to \<open>next\<close>, if any, and the number of lookups in the Event
  collection that were made. Both errors are renamed before they are passed on (line 54
  and 59).
\<close>

definition BookingSchema_pre_save :: "database \<Rightarrow> booking document \<Rightarrow> error option \<times> nat" where
  "BookingSchema_pre_save db doc =
     (if isModified doc ''eventId'' \<or> isNew doc then
        (case Event_findById db (eventId (content doc)) of
           Inr None \<Rightarrow>
             (Some (Renamed ''ValidationError'' (EventDoesNotExist (eventId (content doc)))), 1)
         | Inr (Some _) \<Rightarrow> (None, 1)
         | Inl _ \<Rightarrow> (Some (Renamed ''ValidationError'' InvalidEventIdOrDatabaseError), 1))
      else (None, 0))"

text \<open>\<open>bookingSchema.pre("save", ...)\<close> of booking.model.ts (line 41 to 46): the
  lookup is made on every save, the error thrown is not renamed, and a failed query is
  not caught.\<close>

definition bookingSchema_pre_save :: "database \<Rightarrow> booking document \<Rightarrow> error option \<times> nat" where
  "bookingSchema_pre_save db doc =
     (case Event_findById db (eventId (content doc)) of
        Inr None \<Rightarrow> (Some (ReferencedEventDoesNotExist (eventId (content doc))), 1)
      | Inr (Some _) \<Rightarrow> (None, 1)
      | Inl err \<Rightarrow> (Some err, 1))"

subsection \<open>Saving\<close>

text \<open>\<open>doc.save()\<close>: validation, the hook, then the write. The model of part_000
  and the model of booking.model.ts differ in validator, hook and indexes.\<close>

definition saveWith ::
  "(string \<Rightarrow> bool) \<Rightarrow> (database \<Rightarrow> booking document \<Rightarrow> error option \<times> nat) \<Rightarrow> index list
     \<Rightarrow> int \<Rightarrow> database \<Rightarrow> booking document \<Rightarrow> error + database" where
  "saveWith validator hook ixs now db doc =
     (case validateBooking validator (content doc) of
        Some err \<Rightarrow> Inl err
      | None \<Rightarrow>
          (case fst (hook db doc) of
             Some err \<Rightarrow> Inl err
           | None \<Rightarrow> persistBooking ixs now db doc))"

definition Booking_save :: "int \<Rightarrow> database \<Rightarrow> booking document \<Rightarrow> error + database" where
  "Booking_save = saveWith emailRegex_test BookingSchema_pre_save BookingSchema_indexes"

definition Booking_save_model_ts :: "int \<Rightarrow> database \<Rightarrow> booking document \<Rightarrow> error + database" where
  "Booking_save_model_ts = saveWith EMAIL_REGEX_test bookingSchema_pre_save bookingSchema_indexes"

text \<open>\<open>Booking.create({eventId, email})\<close>: a new document with a fresh \<open>_id\<close>,
  saved.\<close>

definition newBooking :: "objectId \<Rightarrow> objectId \<Rightarrow> string \<Rightarrow> booking document" where
  "newBooking i ev raw =
     \<lparr>content = \<lparr>oid = i, eventId = ev, email = setEmail raw, bookedAt = 0, changedAt = 0\<rparr>,
      isNew = True, modifiedPaths = [''eventId'', ''email'']\<rparr>"

section \<open>The connection\<close>

text \<open>
  \<open>cached\<close>: the handle, and the promise of the attempt in flight. A promise is
  known by the number of the call of \<open>mongoose.connect\<close> that made it; \<open>attempts\<close>
  counts those calls. \<open>outcome k\<close> is what the promise of attempt \<open>k\<close> settles
  to: a handle, or the reason of the rejection.
\<close>

record 'h cache =
  conn :: "'h option"
  promise :: "nat option"
  attempts :: nat

text \<open>\<open>connectToDatabase()\<close>, run to its end: the value returned or thrown, and the
  cache afterwards.\<close>

definition connectToDatabase ::
  "(nat \<Rightarrow> 'e + 'h) \<Rightarrow> 'h cache \<Rightarrow> ('e + 'h) \<times> 'h cache" where
  "connectToDatabase outcome cached =
     (case conn cached of
        Some h \<Rightarrow> (Inr h, cached)
      | None \<Rightarrow>
          (let (k, cached1) =
                 (case promise cached of
                    None \<Rightarrow> (attempts cached,
                             cached\<lparr>promise := Some (attempts cached),
                                    attempts := Suc (attempts cached)\<rparr>)
                  | Some k \<Rightarrow> (k, cached))
           in case outcome k of
                Inl e \<Rightarrow> (Inl e, cached1)
              | Inr h \<Rightarrow> (Inr h, cached1\<lparr>conn := Some h\<rparr>)))"

section \<open>The wording of the specification\<close>

text \<open>
  The definitions of this section follow the sentences of the specification, to be
  compared with the functions above, which follow the code.
\<close>

text \<open>
  The characters the specification names: whitespace (the white space and line
  terminators of the language that lie in the range of the model: TAB, LF, VT, FF, CR,
  SPACE and NO-BREAK SPACE), the lowercase letters a to z, the digits, and the capital
  letters with their lowercase letters (A to Z, and the accented capitals of Latin-1).
\<close>

definition whitespace :: string where
  "whitespace = [CHR 0x09, CHR 0x0A, CHR 0x0B, CHR 0x0C, CHR 0x0D, CHR '' '', CHR 0xA0]"

definition smallLetters :: string where
  "smallLetters = ''abcdefghijklmnopqrstuvwxyz''"

definition capitalLetters :: string where
  "capitalLetters = ''ABCDEFGHIJKLMNOPQRSTUVWXYZ''"

definition decimalDigits :: string where
  "decimalDigits = ''0123456789''"

definition accentedCapitals :: string where
  "accentedCapitals =
     [CHR 0xC0, CHR 0xC1, CHR 0xC2, CHR 0xC3, CHR 0xC4, CHR 0xC5, CHR 0xC6, CHR 0xC7,
      CHR 0xC8, CHR 0xC9, CHR 0xCA, CHR 0xCB, CHR 0xCC, CHR 0xCD, CHR 0xCE, CHR 0xCF,
      CHR 0xD0, CHR 0xD1, CHR 0xD2, CHR 0xD3, CHR 0xD4, CHR 0xD5, CHR 0xD6,
      CHR 0xD8, CHR 0xD9, CHR 0xDA, CHR 0xDB, CHR 0xDC, CHR 0xDD, CHR 0xDE]"

definition accentedSmall :: string where
  "accentedSmall =
     [CHR 0xE0, CHR 0xE1, CHR 0xE2, CHR 0xE3, CHR 0xE4, CHR 0xE5, CHR 0xE6, CHR 0xE7,
      CHR 0xE8, CHR 0xE9, CHR 0xEA, CHR 0xEB, CHR 0xEC, CHR 0xED, CHR 0xEE, CHR 0xEF,
      CHR 0xF0, CHR 0xF1, CHR 0xF2, CHR 0xF3, CHR 0xF4, CHR 0xF5, CHR 0xF6,
      CHR 0xF8, CHR 0xF9, CHR 0xFA, CHR 0xFB, CHR 0xFC, CHR 0xFD, CHR 0xFE]"

text \<open>"Lowercase the title": every capital letter is replaced by its lowercase
  letter.\<close>

definition smallOf :: "char \<Rightarrow> char" where
  "smallOf c =
     (case map_of (zip (capitalLetters @ accentedCapitals) (smallLetters @ accentedSmall)) c of
        Some l \<Rightarrow> l
      | None \<Rightarrow> c)"

definition lowercased :: "string \<Rightarrow> string" where
  "lowercased t = map smallOf t"

text \<open>"Remove every character not in [a-z0-9, whitespace, hyphen]."\<close>

definition withoutOthers :: "string \<Rightarrow> string" where
  "withoutOthers t =
     filter (\<lambda>c. c \<in> set smallLetters \<or> c \<in> set decimalDigits \<or> c \<in> set whitespace
                \<or> c = CHR ''-'') t"

text \<open>"Trim leading/trailing whitespace": the whitespace before the first and after
  the last character that is not whitespace is removed.\<close>

fun trimLeading :: "string \<Rightarrow> string" where
  "trimLeading [] = []"
| "trimLeading (c # cs) = (if c \<in> set whitespace then trimLeading cs else c # cs)"

fun trimTrailing :: "string \<Rightarrow> string" where
  "trimTrailing [] = []"
| "trimTrailing (c # cs) =
     (if c \<in> set whitespace \<and> trimTrailing cs = [] then [] else c # trimTrailing cs)"

text \<open>"Replace every run of whitespace with a single hyphen": a whitespace
  character becomes a hyphen when it starts a run and disappears otherwise.\<close>

fun runsToHyphen :: "bool \<Rightarrow> string \<Rightarrow> string" where
  "runsToHyphen inRun [] = []"
| "runsToHyphen inRun (c # cs) =
     (if c \<in> set whitespace then (if inRun then [] else ''-'') @ runsToHyphen True cs
      else c # runsToHyphen False cs)"

text \<open>The four steps in their order.\<close>

definition slugOfSpec :: "string \<Rightarrow> string" where
  "slugOfSpec t = runsToHyphen False (trimTrailing (trimLeading (withoutOthers (lowercased t))))"

definition hyphens :: "string \<Rightarrow> nat" where
  "hyphens s = length (filter (\<lambda>c. c = CHR ''-'') s)"

text \<open>"PM adds 12 to hour unless hour already 12; AM sets hour to 0 when hour is
  12, otherwise unchanged."\<close>

definition hour24 :: "nat \<Rightarrow> string option \<Rightarrow> nat" where
  "hour24 h mer =
     (if mer = Some ''PM'' then (if h = 12 then h else h + 12)
      else if mer = Some ''AM'' then (if h = 12 then 0 else h)
      else h)"

text \<open>"Optional seconds": nothing, or a colon and two digits.\<close>

definition secondsOk :: "string \<Rightarrow> bool" where
  "secondsOk sec =
     (sec = [] \<or> (length sec = 3 \<and> hd sec = CHR '':'' \<and> list_all isDigit (tl sec)))"

text \<open>"Optional AM/PM, case-insensitive": nothing, or whitespace \<open>ws\<close> (possibly
  none) and then the marker \<open>ap\<close>.\<close>

definition meridiemTail :: "string \<Rightarrow> string option \<Rightarrow> string" where
  "meridiemTail ws g3 = (case g3 of None \<Rightarrow> [] | Some ap \<Rightarrow> ws @ ap)"

definition meridiemOk :: "string \<Rightarrow> string option \<Rightarrow> bool" where
  "meridiemOk ws g3 =
     (case g3 of
        None \<Rightarrow> True
      | Some ap \<Rightarrow> list_all isSpace ws \<and> (toUpperCase ap = ''AM'' \<or> toUpperCase ap = ''PM''))"

text \<open>"Canonical YYYY-MM-DD": four digits, a hyphen, two digits, a hyphen, two
  digits.\<close>

definition isCalendarForm :: "string \<Rightarrow> bool" where
  "isCalendarForm s =
     (length s = 10 \<and> list_all isDigit (take 4 s) \<and> s ! 4 = CHR ''-''
      \<and> list_all isDigit (take 2 (drop 5 s)) \<and> s ! 7 = CHR ''-''
      \<and> list_all isDigit (drop 8 s))"

text \<open>"At most one Booking per (eventId, email) pair."\<close>

definition pairKey :: "booking \<Rightarrow> objectId \<times> string" where
  "pairKey b = (eventId b, email b)"

definition uniqueBookings :: "database \<Rightarrow> bool" where
  "uniqueBookings db = distinct (map pairKey (bookings db))"

text \<open>No two stored Bookings have the same \<open>_id\<close>.\<close>

definition uniqueIds :: "database \<Rightarrow> bool" where
  "uniqueIds db = distinct (map oid (bookings db))"

section \<open>Example inputs\<close>

text \<open>A new Event with its thirteen given fields marked as modified, and the
  document the hook hands on for it.\<close>

definition exampleEvent :: "event document" where
  "exampleEvent =
     \<lparr>content = \<lparr>title = ''Hello, World!  2024'', slug = [], description = ''Talks'',
        overview = ''A day of talks'', image_path = ''/img/a.png'', venue = ''Hall 1'',
        location = ''Lyon'', date = ''2025-03-05'', time = ''2:30 PM'', mode = ''offline'',
        audience = ''Developers'', agenda = [''Opening''], organizer = ''ACME'',
        tags = [''web''], createdAt = 0, updatedAt = 0\<rparr>,
      isNew = True,
      modifiedPaths = [''title'', ''description'', ''overview'', ''image'', ''venue'',
        ''location'', ''date'', ''time'', ''mode'', ''audience'', ''agenda'', ''organizer'',
        ''tags'']\<rparr>"

definition exampleSaved :: "event document" where
  "exampleSaved =
     exampleEvent\<lparr>content := (content exampleEvent)
        \<lparr>slug := ''hello-world-2024'', date := ''2025-03-05'', time := ''14:30''\<rparr>,
        modifiedPaths := modifiedPaths exampleEvent @ [''slug'']\<rparr>"

text \<open>A stored Event whose slug was set by hand, loaded and changed in its venue
  only.\<close>

definition reloadedEvent :: "event document" where
  "reloadedEvent =
     \<lparr>content = (content exampleSaved)\<lparr>slug := ''spring-meeting'', venue := ''Hall 2''\<rparr>,
      isNew = False, modifiedPaths = [''venue'']\<rparr>"

text \<open>The same stored Event, loaded and given a new title, and the document the hook
  hands on for it.\<close>

definition retitledEvent :: "event document" where
  "retitledEvent =
     \<lparr>content = (content exampleSaved)\<lparr>slug := ''spring-meeting'', title := ''! a !''\<rparr>,
      isNew = False, modifiedPaths = [''title'']\<rparr>"

definition retitledSaved :: "event document" where
  "retitledSaved =
     retitledEvent\<lparr>content := (content retitledEvent)\<lparr>slug := ''a''\<rparr>,
       modifiedPaths := [''title'', ''slug'']\<rparr>"

text \<open>A new Event with a date of the year 10000.\<close>

definition farEvent :: "event document" where
  "farEvent = exampleEvent\<lparr>content := (content exampleEvent)\<lparr>date := ''+010000-01-01''\<rparr>\<rparr>"

text \<open>A runtime that reads no string but those of \<open>parseISODate\<close>; one that reads
  "March 5, 2025" as midnight of that day in UTC; and one that reads it as midnight
  in a zone one hour ahead of UTC.\<close>

definition isoOnly :: "string \<Rightarrow> int option" where
  "isoOnly s = None"

definition utcRuntime :: "string \<Rightarrow> int option" where
  "utcRuntime s = (if s = ''March 5, 2025'' then Some 1741132800000 else None)"

definition cetRuntime :: "string \<Rightarrow> int option" where
  "cetRuntime s = (if s = ''March 5, 2025'' then Some 1741129200000 else None)"

text \<open>A database with one Event, a Booking of it, the same after the Event has
  gone, and that Booking as a document loaded from the database.\<close>

definition oneEvent :: database where
  "oneEvent = \<lparr>reachable = True, events = [1], bookings = []\<rparr>"

definition firstBooking :: booking where
  "firstBooking = \<lparr>oid = 10, eventId = 1, email = ''a@b.c'', bookedAt = 5, changedAt = 5\<rparr>"

definition oneBooking :: database where
  "oneBooking = \<lparr>reachable = True, events = [1], bookings = [firstBooking]\<rparr>"

definition strandedBooking :: database where
  "strandedBooking = \<lparr>reachable = True, events = [], bookings = [firstBooking]\<rparr>"

definition loadedBooking :: "booking document" where
  "loadedBooking = \<lparr>content = firstBooking, isNew = False, modifiedPaths = []\<rparr>"

text \<open>The stored Booking, loaded and changed in its email only.\<close>

definition editedBooking :: "booking document" where
  "editedBooking =
     \<lparr>content = firstBooking\<lparr>email := ''x@y.z''\<rparr>, isNew = False, modifiedPaths = [''email'']\<rparr>"

text \<open>A first attempt to connect that is refused, and the cache before and after
  it.\<close>

definition refusedOnce :: "nat \<Rightarrow> string + nat" where
  "refusedOnce k = (if k = 0 then Inl ''ECONNREFUSED'' else Inr 7)"

definition emptyCache :: "nat cache" where
  "emptyCache = \<lparr>conn = None, promise = None, attempts = 0\<rparr>"

definition poisonedCache :: "nat cache" where
  "poisonedCache = \<lparr>conn = None, promise = Some 0, attempts = 1\<rparr>"

section \<open>Lemmas: strings and numerals\<close>

lemma digit_cases: "d < 10 \<Longrightarrow> d \<in> {0, 1, 2, 3, 4, 5, 6, 7, 8, 9::nat}"
  by auto

lemma isDigit_digitChar: "d < 10 \<Longrightarrow> isDigit (digitChar d)"
  by (drule digit_cases) (auto simp: digitChar_def isDigit_def code_def)

lemma digitVal_digitChar: "d < 10 \<Longrightarrow> digitVal (digitChar d) = d"
  by (drule digit_cases) (auto simp: digitChar_def digitVal_def code_def)

lemma not_isSpace_digit: "isDigit c \<Longrightarrow> \<not> isSpace c"
  by (auto simp: isDigit_def isSpace_def)

lemma length_digitsN: "length (digitsN k n) = k"
  by (induction k arbitrary: n) auto

lemma digits_digitsN: "list_all isDigit (digitsN k n)"
  by (induction k arbitrary: n) (auto simp: isDigit_digitChar)

lemma parseInt10_snoc: "parseInt10 (s @ [c]) = 10 * parseInt10 s + digitVal c"
  by (simp add: parseInt10_def)

lemma parseInt10_digitsN: "parseInt10 (digitsN k n) = n mod 10 ^ k"
proof (induction k arbitrary: n)
  case 0
  show ?case by (simp add: parseInt10_def)
next
  case (Suc k)
  have "parseInt10 (digitsN (Suc k) n) = 10 * (n div 10 mod 10 ^ k) + n mod 10"
    by (simp add: parseInt10_snoc Suc digitVal_digitChar)
  also have "\<dots> = n mod 10 ^ Suc k"
    by (simp add: mod_mult2_eq)
  finally show ?case .
qed

lemma digitsN_2: "digitsN 2 n = [digitChar (n div 10 mod 10), digitChar (n mod 10)]"
  by (simp add: numeral_2_eq_2)

lemma padStart_two: "n < 100 \<Longrightarrow> padStart 2 CHR ''0'' (numberToString n) = digitsN 2 n"
proof -
  assume n: "n < 100"
  have z: "digitChar 0 = CHR ''0''" by (simp add: digitChar_def)
  show ?thesis
  proof (cases "n < 10")
    case True
    then show ?thesis
      by (simp add: numberToString.simps [of n] padStart_def digitsN_2 z)
  next
    case False
    with n have d: "n div 10 < 10" by simp
    from False d show ?thesis
      by (simp add: numberToString.simps [of n] numberToString.simps [of "n div 10"]
          padStart_def digitsN_2)
  qed
qed

lemma digitsN_3:
  "digitsN 3 n = [digitChar (n div 10 div 10 mod 10), digitChar (n div 10 mod 10), digitChar (n mod 10)]"
proof -
  have "(3::nat) = Suc (Suc (Suc 0))" by simp
  then show ?thesis by (simp only: digitsN.simps append.simps)
qed

lemma digitsN_4:
  "digitsN 4 n = [digitChar (n div 10 div 10 div 10 mod 10), digitChar (n div 10 div 10 mod 10),
     digitChar (n div 10 mod 10), digitChar (n mod 10)]"
proof -
  have "(4::nat) = Suc (Suc (Suc (Suc 0)))" by simp
  then show ?thesis by (simp only: digitsN.simps append.simps)
qed

lemma digitsN_6:
  "digitsN 6 n = [digitChar (n div 10 div 10 div 10 div 10 div 10 mod 10),
     digitChar (n div 10 div 10 div 10 div 10 mod 10),
     digitChar (n div 10 div 10 div 10 mod 10), digitChar (n div 10 div 10 mod 10),
     digitChar (n div 10 mod 10), digitChar (n mod 10)]"
proof -
  have "(6::nat) = Suc (Suc (Suc (Suc (Suc (Suc 0)))))" by simp
  then show ?thesis by (simp only: digitsN.simps append.simps)
qed


lemma trim_id: "s \<noteq> [] \<Longrightarrow> \<not> isSpace (hd s) \<Longrightarrow> \<not> isSpace (last s) \<Longrightarrow> trim s = s"
proof -
  assume s: "s \<noteq> []" and h: "\<not> isSpace (hd s)" and l: "\<not> isSpace (last s)"
  from s h have 1: "dropWhile isSpace s = s" by (cases s) auto
  from s l have 2: "dropWhile isSpace (rev s) = rev s"
    by (cases "rev s") (auto simp: last_rev [symmetric] simp del: last_rev)
  show ?thesis by (simp add: trim_def 1 2)
qed


section \<open>Lemmas: the slug\<close>

lemma mem_code: "c \<in> set s \<longleftrightarrow> code c \<in> set (map code s)"
  by (auto simp: code_def)

lemma whitespace_isSpace: "c \<in> set whitespace \<longleftrightarrow> isSpace c"
  unfolding mem_code [of c whitespace] by (auto simp: isSpace_def whitespace_def code_def)

lemma in_upt: "n \<in> set [a..<b] \<longleftrightarrow> a \<le> n \<and> n < b"
  by simp

lemma decimalDigits_isDigit: "c \<in> set decimalDigits \<longleftrightarrow> isDigit c"
proof -
  have e: "map code decimalDigits = [48..<58]"
    by (simp add: decimalDigits_def code_def upt_rec)
  have "code c \<in> set [48..<58] \<longleftrightarrow> isDigit c"
    unfolding in_upt isDigit_def by arith
  then show ?thesis unfolding mem_code [of c decimalDigits] e .
qed

lemma smallLetters_isLowerAZ: "c \<in> set smallLetters \<longleftrightarrow> isLowerAZ c"
proof -
  have e: "map code smallLetters = [97..<123]"
    by (simp add: smallLetters_def code_def upt_rec)
  have "code c \<in> set [97..<123] \<longleftrightarrow> isLowerAZ c"
    unfolding in_upt isLowerAZ_def by arith
  then show ?thesis unfolding mem_code [of c smallLetters] e .
qed

lemma capitals:
  "c \<in> set (capitalLetters @ accentedCapitals) \<longleftrightarrow>
     (65 \<le> code c \<and> code c \<le> 90) \<or> (192 \<le> code c \<and> code c \<le> 222 \<and> code c \<noteq> 215)"
proof -
  have e: "map code (capitalLetters @ accentedCapitals) = [65..<91] @ [192..<215] @ [216..<223]"
    by (simp add: capitalLetters_def accentedCapitals_def code_def upt_rec)
  have "code c \<in> set ([65..<91] @ [192..<215] @ [216..<223]) \<longleftrightarrow>
     (65 \<le> code c \<and> code c \<le> 90) \<or> (192 \<le> code c \<and> code c \<le> 222 \<and> code c \<noteq> 215)"
    unfolding set_append Un_iff in_upt by arith
  then show ?thesis unfolding mem_code [of c "capitalLetters @ accentedCapitals"] e .
qed

lemma code_smallOf:
  "c \<in> set (capitalLetters @ accentedCapitals) \<Longrightarrow> code (smallOf c) = code c + 32"
proof -
  have "list_all (\<lambda>c. code (smallOf c) = code c + 32) (capitalLetters @ accentedCapitals)"
    by (simp add: capitalLetters_def accentedCapitals_def smallLetters_def accentedSmall_def
        smallOf_def code_def)
  then show "c \<in> set (capitalLetters @ accentedCapitals) \<Longrightarrow> code (smallOf c) = code c + 32"
    unfolding list_all_iff by blast
qed

lemma toLowerChar_smallOf: "toLowerChar c = smallOf c"
proof (cases "c \<in> set (capitalLetters @ accentedCapitals)")
  case True
  then have r: "(65 \<le> code c \<and> code c \<le> 90) \<or> (192 \<le> code c \<and> code c \<le> 222 \<and> code c \<noteq> 215)"
    by (simp only: capitals)
  then have "code c + 32 < 256" by auto
  then have "code (char_of (code c + 32)) = code c + 32" by (simp add: code_def)
  with r code_smallOf [OF True] have "code (toLowerChar c) = code (smallOf c)"
    by (simp add: toLowerChar_def)
  then show ?thesis by (simp add: code_def)
next
  case False
  have "length (capitalLetters @ accentedCapitals) = length (smallLetters @ accentedSmall)"
    by (simp add: capitalLetters_def accentedCapitals_def smallLetters_def accentedSmall_def)
  from map_of_zip_is_None [OF this, of c] False
  have a: "smallOf c = c" by (simp add: smallOf_def)
  from False have "\<not> ((65 \<le> code c \<and> code c \<le> 90) \<or> (192 \<le> code c \<and> code c \<le> 222 \<and> code c \<noteq> 215))"
    unfolding capitals .
  then have "toLowerChar c = c" unfolding toLowerChar_def by (simp only: if_False)
  with a show ?thesis by simp
qed

lemma toLowerCase_lowercased: "toLowerCase t = lowercased t"
  by (simp add: toLowerCase_def lowercased_def toLowerChar_smallOf [abs_def])

lemma stripNonSlug_withoutOthers: "stripNonSlug t = withoutOthers t"
  by (simp add: stripNonSlug_def withoutOthers_def slugKeep_def [abs_def] smallLetters_isLowerAZ
      decimalDigits_isDigit whitespace_isSpace)

lemma trimLeading_dropWhile: "trimLeading s = dropWhile isSpace s"
  by (induction s) (simp_all add: whitespace_isSpace)

lemma trimTrailing_Nil: "trimTrailing s = [] \<longleftrightarrow> (\<forall>c \<in> set s. isSpace c)"
  by (induction s) (auto simp: whitespace_isSpace)

lemma trimTrailing_rev: "trimTrailing s = rev (dropWhile isSpace (rev s))"
proof (induction s)
  case Nil
  show ?case by simp
next
  case (Cons c cs)
  show ?case
  proof (cases "\<forall>x \<in> set cs. isSpace x")
    case True
    then have "dropWhile isSpace (rev cs @ [c]) = dropWhile isSpace [c]"
      by (simp add: dropWhile_append)
    moreover from True have "trimTrailing cs = []" by (simp add: trimTrailing_Nil)
    ultimately show ?thesis by (simp add: whitespace_isSpace)
  next
    case False
    then have d: "dropWhile isSpace (rev cs @ [c]) = dropWhile isSpace (rev cs) @ [c]"
      by (auto simp: dropWhile_append)
    from False have "trimTrailing cs \<noteq> []" by (simp add: trimTrailing_Nil)
    with d Cons show ?thesis by simp
  qed
qed

lemma runsToHyphen_True: "runsToHyphen True s = runsToHyphen False (dropWhile isSpace s)"
  by (induction s) (auto simp: whitespace_isSpace)

lemma collapseSpaces_runs: "collapseSpaces s = runsToHyphen False s"
  by (induction s rule: collapseSpaces.induct) (auto simp: runsToHyphen_True whitespace_isSpace)

lemma collapseSpaces_set:
  "c \<in> set (collapseSpaces s) \<Longrightarrow> (c \<in> set s \<and> \<not> isSpace c) \<or> c = CHR ''-''"
  by (induction s rule: collapseSpaces.induct) (auto split: if_splits dest: set_dropWhileD)

lemma set_trim: "set (trim s) \<subseteq> set s"
  by (auto simp: trim_def dest!: set_dropWhileD)

lemma slugify_chars:
  "c \<in> set (slugify t) \<Longrightarrow> isLowerAZ c \<or> isDigit c \<or> c = CHR ''-''"
proof -
  assume "c \<in> set (slugify t)"
  then have "(c \<in> set (trim (stripNonSlug (toLowerCase t))) \<and> \<not> isSpace c) \<or> c = CHR ''-''"
    unfolding slugify_def by (rule collapseSpaces_set)
  moreover have "set (trim (stripNonSlug (toLowerCase t))) \<subseteq> {c. slugKeep c}"
    using set_trim [of "stripNonSlug (toLowerCase t)"] by (auto simp: stripNonSlug_def)
  ultimately show ?thesis by (auto simp: slugKeep_def)
qed

lemmas char_eval = code_def isSpace_def isDigit_def isLowerAZ_def toLowerChar_def
  toLowerCase_def slugKeep_def stripNonSlug_def trim_def slugify_def

lemma slugify_hello: "slugify ''Hello, World!  2024'' = ''hello-world-2024''"
  by code_simp

lemma slugify_spaced_hyphen: "slugify ''a - b'' = ''a---b''"
  by (simp add: char_eval)

lemma slugify_outer_hyphens: "slugify ''-a-'' = ''-a-''"
  by (simp add: char_eval)


lemma not_isSpace_hyphen: "\<not> isSpace CHR ''-''"
  by (simp add: isSpace_def code_def)

lemma toLowerChar_hyphen: "toLowerChar CHR ''-'' = CHR ''-''"
  by (simp add: toLowerChar_def code_def)

lemma hyphens_dropWhile: "hyphens (dropWhile isSpace s) = hyphens s"
  by (induction s) (auto simp: hyphens_def not_isSpace_hyphen)

lemma hyphens_rev: "hyphens (rev s) = hyphens s"
  by (simp add: hyphens_def flip: rev_filter)

lemma hyphens_trim: "hyphens (trim s) = hyphens s"
  by (simp add: trim_def hyphens_rev hyphens_dropWhile)

lemma hyphens_strip: "hyphens (stripNonSlug s) = hyphens s"
proof -
  have "filter (\<lambda>c. c = CHR ''-'') (filter slugKeep s) = filter (\<lambda>c. c = CHR ''-'') s"
    by (induction s) (auto simp: slugKeep_def)
  then show ?thesis by (simp add: hyphens_def stripNonSlug_def)
qed

lemma hyphens_lower: "hyphens s \<le> hyphens (toLowerCase s)"
  by (induction s) (auto simp: hyphens_def toLowerCase_def toLowerChar_hyphen)

lemma hyphens_collapse: "hyphens s \<le> hyphens (collapseSpaces s)"
proof (induction s rule: collapseSpaces.induct)
  case 1
  show ?case by simp
next
  case (2 c cs)
  show ?case
  proof (cases "isSpace c")
    case True
    with 2 have "hyphens cs \<le> hyphens (collapseSpaces (dropWhile isSpace cs))"
      by (simp add: hyphens_dropWhile)
    with True show ?thesis by (auto simp: hyphens_def not_isSpace_hyphen)
  next
    case False
    with 2 show ?thesis by (auto simp: hyphens_def)
  qed
qed

lemma hyphens_slugify: "hyphens t \<le> hyphens (slugify t)"
proof -
  have "hyphens t \<le> hyphens (trim (stripNonSlug (toLowerCase t)))"
    by (simp add: hyphens_trim hyphens_strip hyphens_lower)
  also have "\<dots> \<le> hyphens (slugify t)"
    unfolding slugify_def by (rule hyphens_collapse)
  finally show ?thesis .
qed

lemma collapseSpaces_no_space: "\<not> list_ex isSpace s \<Longrightarrow> collapseSpaces s = s"
  by (induction s) auto

lemma code_char_of: "n < 256 \<Longrightarrow> code (char_of n) = n"
  by (simp add: code_def)

lemma isSpace_toLowerChar: "isSpace (toLowerChar c) \<Longrightarrow> isSpace c"
  by (auto simp: toLowerChar_def isSpace_def code_char_of split: if_splits)

lemma slugify_no_space:
  assumes "\<not> list_ex isSpace t"
  shows "slugify t = stripNonSlug (toLowerCase t)"
proof -
  let ?s = "stripNonSlug (toLowerCase t)"
  have ns: "\<not> list_ex isSpace ?s"
    using assms by (auto simp: list_ex_iff stripNonSlug_def toLowerCase_def dest: isSpace_toLowerChar)
  have "trim ?s = ?s"
  proof (cases "?s = []")
    case True
    then show ?thesis by (simp add: trim_def)
  next
    case False
    with ns show ?thesis by (intro trim_id) (auto simp: list_ex_iff)
  qed
  with ns show ?thesis by (simp add: slugify_def collapseSpaces_no_space)
qed

lemma slugify_double_hyphen: "slugify ''a--b'' = ''a--b''"
  by (simp add: char_eval)

section \<open>Lemmas: the time pattern\<close>


lemma meridiem_head:
  assumes "map toUpperChar ap = ''AM'' \<or> map toUpperChar ap = ''PM''"
  shows "\<exists>x y. ap = [x, y] \<and> \<not> isSpace x \<and> x \<noteq> CHR '':''"
proof -
  from assms obtain x y where ap: "ap = [x, y]" and
    x: "toUpperChar x = CHR ''A'' \<or> toUpperChar x = CHR ''P''"
    by (cases ap; cases "tl ap"; cases "tl (tl ap)") auto
  have "\<not> isSpace x"
  proof
    assume "isSpace x"
    then have "toUpperChar x = x" by (auto simp: isSpace_def toUpperChar_def)
    with x \<open>isSpace x\<close> show False by (auto simp: isSpace_def code_def)
  qed
  moreover have "x \<noteq> CHR '':''"
    using x by (auto simp: toUpperChar_def code_def)
  ultimately show ?thesis using ap by blast
qed

lemma matchMeridiem_tail:
  assumes "meridiemOk ws g3"
  shows "matchMeridiem (meridiemTail ws g3) = Some g3"
proof (cases g3)
  case None
  then show ?thesis by (simp add: matchMeridiem_def meridiemTail_def)
next
  case (Some ap)
  with assms have ws: "list_all isSpace ws"
    and up: "map toUpperChar ap = ''AM'' \<or> map toUpperChar ap = ''PM''"
    by (auto simp: meridiemOk_def toUpperCase_def)
  from meridiem_head [OF up] obtain x y where ap: "ap = [x, y]" and x: "\<not> isSpace x" by blast
  have "dropWhile isSpace (ws @ ap) = ap"
    using ws x ap by (simp add: dropWhile_append2 list_all_iff)
  with up Some show ?thesis by (simp add: matchMeridiem_def meridiemTail_def)
qed

lemma tail_no_colon:
  assumes "meridiemOk ws g3" and "meridiemTail ws g3 = c # r"
  shows "c \<noteq> CHR '':''"
proof (cases g3)
  case None
  with assms show ?thesis by (simp add: meridiemTail_def)
next
  case (Some ap)
  with assms have ws: "list_all isSpace ws"
    and up: "map toUpperChar ap = ''AM'' \<or> map toUpperChar ap = ''PM''"
    by (auto simp: meridiemOk_def toUpperCase_def)
  from meridiem_head [OF up] obtain x y where ap: "ap = [x, y]" and x: "x \<noteq> CHR '':''" by blast
  have sp: "\<not> isSpace CHR '':''" by (simp add: isSpace_def code_def)
  show ?thesis
  proof (cases ws)
    case Nil
    with assms Some ap x show ?thesis by (simp add: meridiemTail_def)
  next
    case (Cons w ws')
    with assms Some ws sp show ?thesis by (auto simp: meridiemTail_def)
  qed
qed

lemma matchSeconds_tail:
  assumes "secondsOk sec" and "meridiemOk ws g3"
  shows "matchSeconds (sec @ meridiemTail ws g3) = Some g3"
proof (cases "sec = []")
  case True
  have "matchSeconds (meridiemTail ws g3) = matchMeridiem (meridiemTail ws g3)"
    using tail_no_colon [OF assms(2)]
    by (auto simp: matchSeconds_def split: list.splits)
  with True show ?thesis by (simp add: matchMeridiem_tail [OF assms(2)])
next
  case False
  with assms(1) have "length sec = 3" "hd sec = CHR '':''" "list_all isDigit (tl sec)"
    by (auto simp: secondsOk_def)
  then obtain a b where "sec = [CHR '':'', a, b]" "isDigit a" "isDigit b"
    by (cases sec; cases "tl sec"; cases "tl (tl sec)") auto
  then show ?thesis
    by (simp add: matchSeconds_def matchMeridiem_tail [OF assms(2)])
qed

lemma matchHour_pattern:
  assumes "length h = k" "list_all isDigit h" "length m = 2" "list_all isDigit m"
    "secondsOk sec" "meridiemOk ws g3"
  shows "matchHour k (h @ '':'' @ m @ sec @ meridiemTail ws g3) = Some (h, m, g3)"
proof -
  from assms(3) obtain m1 m2 where m: "m = [m1, m2]"
    by (cases m; cases "tl m") auto
  with assms(4) have "isDigit m1" "isDigit m2" by auto
  with assms(1,2) m show ?thesis
    by (simp add: matchHour_def matchSeconds_tail [OF assms(5,6)])
qed

lemma not_isDigit_colon: "\<not> isDigit CHR '':''"
  by (simp add: isDigit_def code_def)

lemma matchTime_pattern:
  assumes "length h = 1 \<or> length h = 2" "list_all isDigit h" "length m = 2" "list_all isDigit m"
    "secondsOk sec" "meridiemOk ws g3"
  shows "matchTime (h @ '':'' @ m @ sec @ meridiemTail ws g3) = Some (h, m, g3)"
proof (cases "length h = 2")
  case True
  from matchHour_pattern [OF True assms(2-6)] show ?thesis
    by (simp add: matchTime_def)
next
  case False
  with assms(1) have l: "length h = 1" by simp
  then obtain h1 where h: "h = [h1]" by (cases h) auto
  have "matchHour 2 (h @ '':'' @ m @ sec @ meridiemTail ws g3) = None"
    by (simp add: h matchHour_def not_isDigit_colon numeral_2_eq_2)
  with matchHour_pattern [OF l assms(2-6)] show ?thesis
    by (simp add: matchTime_def)
qed

lemma hours_hour24:
  "(let hours1 = (if mer = Some ''PM'' \<and> h0 \<noteq> 12 then h0 + 12 else h0)
    in if mer = Some ''AM'' \<and> hours1 = 12 then 0 else hours1) = hour24 h0 mer"
  by (auto simp: hour24_def Let_def)

lemma normalizeTime_matched:
  assumes "matchTime (trim t) = Some (g1, g2, g3)"
  shows "normalizeTime t =
    (let H = hour24 (parseInt10 g1) (map_option toUpperCase g3)
     in if 23 < H \<or> 59 < parseInt10 g2 then Inl (TimeOutOfRange t)
        else Inr (digitsN 2 H @ '':'' @ g2))"
proof -
  define mer where "mer = map_option toUpperCase g3"
  define H where "H = hour24 (parseInt10 g1) mer"
  have "normalizeTime t =
    (let hours1 = (if mer = Some ''PM'' \<and> parseInt10 g1 \<noteq> 12 then parseInt10 g1 + 12
                   else parseInt10 g1);
         hours = (if mer = Some ''AM'' \<and> hours1 = 12 then 0 else hours1)
     in if 23 < hours \<or> 59 < parseInt10 g2 then Inl (TimeOutOfRange t)
        else Inr (padStart 2 CHR ''0'' (numberToString hours) @ '':'' @ g2))"
    unfolding normalizeTime_def assms mer_def by (simp only: Let_def option.case prod.case)
  also have "\<dots> =
    (if 23 < H \<or> 59 < parseInt10 g2 then Inl (TimeOutOfRange t)
     else Inr (padStart 2 CHR ''0'' (numberToString H) @ '':'' @ g2))"
    unfolding H_def hours_hour24 [of mer "parseInt10 g1", symmetric]
    by (simp only: Let_def)
  also have "\<dots> =
    (if 23 < H \<or> 59 < parseInt10 g2 then Inl (TimeOutOfRange t)
     else Inr (digitsN 2 H @ '':'' @ g2))"
    by (simp add: padStart_two)
  finally show ?thesis by (simp add: Let_def H_def mer_def)
qed

lemma normalizeTime_pattern:
  assumes "trim t = h @ '':'' @ m @ sec @ meridiemTail ws g3"
    "length h = 1 \<or> length h = 2" "list_all isDigit h" "length m = 2" "list_all isDigit m"
    "secondsOk sec" "meridiemOk ws g3"
  shows "normalizeTime t =
    (let H = hour24 (parseInt10 h) (map_option toUpperCase g3)
     in if 23 < H \<or> 59 < parseInt10 m then Inl (TimeOutOfRange t)
        else Inr (digitsN 2 H @ '':'' @ m))"
  using matchTime_pattern [OF assms(2-7)] normalizeTime_matched [of t h m g3]
  by (simp add: assms(1))

lemma matchHour_groups:
  "matchHour k s = Some (g1, g2, g3) \<Longrightarrow> length g2 = 2 \<and> list_all isDigit g2"
  by (auto simp: matchHour_def Let_def split: if_splits list.splits)

lemma matchTime_groups:
  "matchTime s = Some (g1, g2, g3) \<Longrightarrow> length g2 = 2 \<and> list_all isDigit g2"
  by (auto simp: matchTime_def split: option.splits dest: matchHour_groups)

lemma normalizeTime_canonical:
  assumes "H \<le> 23" "length m = 2" "list_all isDigit m" "parseInt10 m \<le> 59"
  shows "normalizeTime (digitsN 2 H @ '':'' @ m) = Inr (digitsN 2 H @ '':'' @ m)"
proof -
  let ?s = "digitsN 2 H @ '':'' @ m"
  from assms(2) obtain m1 m2 where m: "m = [m1, m2]" by (cases m; cases "tl m") auto
  with assms(3) have m2: "isDigit m2" by simp
  have hd: "isDigit (hd ?s)" by (simp add: digitsN_2 isDigit_digitChar)
  have "trim ?s = ?s"
    using hd m2 by (intro trim_id) (auto simp: m dest: not_isSpace_digit)
  then have t: "trim ?s = digitsN 2 H @ '':'' @ m @ [] @ meridiemTail [] None"
    by (simp add: meridiemTail_def)
  have p: "parseInt10 (digitsN 2 H) = H"
    using assms(1) by (simp add: parseInt10_digitsN)
  show ?thesis
    using normalizeTime_pattern [OF t _ digits_digitsN assms(2,3)] assms(1,4)
    by (simp add: length_digitsN secondsOk_def meridiemOk_def p hour24_def)
qed

lemma normalizeTime_idem:
  assumes "normalizeTime t = Inr t'"
  shows "normalizeTime t' = Inr t'"
proof -
  from assms obtain g1 g2 g3 where mt: "matchTime (trim t) = Some (g1, g2, g3)"
    by (cases "matchTime (trim t)") (auto simp: normalizeTime_def)
  let ?H = "hour24 (parseInt10 g1) (map_option toUpperCase g3)"
  from normalizeTime_matched [OF mt] assms
  have H: "?H \<le> 23" and M: "parseInt10 g2 \<le> 59" and t': "t' = digitsN 2 ?H @ '':'' @ g2"
    by (auto simp: Let_def split: if_splits)
  from matchTime_groups [OF mt] have "length g2 = 2" "list_all isDigit g2" by auto
  from normalizeTime_canonical [OF H this M] show ?thesis by (simp add: t')
qed

lemma normalizeTime_afternoon: "normalizeTime ''2:30 PM'' = Inr ''14:30''"
  by code_simp
lemma normalizeTime_midnight: "normalizeTime ''12:00 AM'' = Inr ''00:00''"
  by code_simp
lemma normalizeTime_25: "normalizeTime ''25:00'' = Inl (TimeOutOfRange ''25:00'')"
  by code_simp
lemma matchTime_25: "matchTime (trim ''25:00'') = Some (''25'', ''00'', None)"
  by code_simp

lemma matchMeridiem_sound:
  assumes "matchMeridiem r = Some g3"
  shows "\<exists>ws. r = meridiemTail ws g3 \<and> meridiemOk ws g3"
proof (cases g3)
  case None
  with assms have "r = []"
    by (auto simp: matchMeridiem_def Let_def split: if_splits)
  with None show ?thesis by (simp add: meridiemTail_def meridiemOk_def)
next
  case (Some a)
  with assms have a: "a = dropWhile isSpace r"
    and up: "map toUpperChar a = ''AM'' \<or> map toUpperChar a = ''PM''"
    by (auto simp: matchMeridiem_def Let_def split: if_splits)
  have "r = takeWhile isSpace r @ a" by (simp add: a)
  moreover have "list_all isSpace (takeWhile isSpace r)"
    by (simp add: list_all_iff) (meson set_takeWhileD)
  ultimately show ?thesis
    using Some up by (auto simp: meridiemTail_def meridiemOk_def toUpperCase_def)
qed

lemma matchSeconds_sound:
  assumes "matchSeconds r = Some g3"
  shows "\<exists>sec ws. r = sec @ meridiemTail ws g3 \<and> secondsOk sec \<and> meridiemOk ws g3"
proof (cases "matchMeridiem r = Some g3")
  case True
  from matchMeridiem_sound [OF this] obtain ws where "r = meridiemTail ws g3" "meridiemOk ws g3"
    by blast
  then have "r = [] @ meridiemTail ws g3 \<and> secondsOk [] \<and> meridiemOk ws g3"
    by (simp add: secondsOk_def)
  then show ?thesis by blast
next
  case False
  with assms obtain s1 s2 r' where r: "r = CHR '':'' # s1 # s2 # r'" and
    d: "isDigit s1" "isDigit s2" and m: "matchMeridiem r' = Some g3"
    by (auto simp: matchSeconds_def split: list.splits if_splits option.splits)
  from matchMeridiem_sound [OF m] obtain ws where "r' = meridiemTail ws g3" "meridiemOk ws g3"
    by blast
  with r d have "r = [CHR '':'', s1, s2] @ meridiemTail ws g3 \<and> secondsOk [CHR '':'', s1, s2]
      \<and> meridiemOk ws g3"
    by (simp add: secondsOk_def)
  then show ?thesis by blast
qed

lemma matchHour_sound:
  assumes "matchHour k s = Some (h, m, g3)"
  shows "\<exists>sec ws. s = h @ '':'' @ m @ sec @ meridiemTail ws g3 \<and> length h = k
    \<and> list_all isDigit h \<and> length m = 2 \<and> list_all isDigit m \<and> secondsOk sec \<and> meridiemOk ws g3"
proof -
  from assms obtain m1 m2 r' where h: "h = take k s" "length h = k" "list_all isDigit h"
    and r: "drop k s = CHR '':'' # m1 # m2 # r'" and m: "m = [m1, m2]" "isDigit m1" "isDigit m2"
    and g: "matchSeconds r' = Some g3"
    by (auto simp: matchHour_def Let_def split: if_splits list.splits)
  from matchSeconds_sound [OF g] obtain sec ws where
    t: "r' = sec @ meridiemTail ws g3" "secondsOk sec" "meridiemOk ws g3" by blast
  have "s = take k s @ drop k s" by simp
  with h r m t have "s = h @ '':'' @ m @ sec @ meridiemTail ws g3" by simp
  with h m t show ?thesis by auto
qed

text \<open>The pattern accepts exactly the strings of the shape the specification
  describes.\<close>

lemma matchTime_sound:
  assumes "matchTime s = Some (h, m, g3)"
  shows "\<exists>sec ws. s = h @ '':'' @ m @ sec @ meridiemTail ws g3 \<and> (length h = 1 \<or> length h = 2)
    \<and> list_all isDigit h \<and> length m = 2 \<and> list_all isDigit m \<and> secondsOk sec \<and> meridiemOk ws g3"
proof -
  from assms have "matchHour 2 s = Some (h, m, g3) \<or> matchHour 1 s = Some (h, m, g3)"
    by (auto simp: matchTime_def split: option.splits)
  then show ?thesis
  proof
    assume "matchHour 2 s = Some (h, m, g3)"
    from matchHour_sound [OF this] show ?thesis by blast
  next
    assume "matchHour 1 s = Some (h, m, g3)"
    from matchHour_sound [OF this] show ?thesis by blast
  qed
qed

section \<open>Lemmas: the calendar\<close>

lemma div_min3:
  fixes x k :: int
  assumes "0 \<le> x" "x \<le> 4 * k" "0 < k"
  defines "q \<equiv> min 3 (x div k)"
  shows "0 \<le> q \<and> q \<le> 3 \<and> 0 \<le> x - k * q \<and> x - k * q \<le> k \<and> (q < 3 \<longrightarrow> x - k * q < k)"
proof -
  have q0: "0 \<le> x div k" using assms(1,3) by (simp add: pos_imp_zdiv_nonneg_iff)
  have q4: "x div k \<le> 4"
  proof -
    have "x div k \<le> (4 * k) div k" using assms(2,3) by (intro zdiv_mono1) auto
    then show ?thesis using assms(3) by simp
  qed
  have eq: "x = k * (x div k) + x mod k" by simp
  have r: "0 \<le> x mod k" "x mod k < k" using assms(3) by auto
  show ?thesis
  proof (cases "x div k \<le> 3")
    case True
    then have "q = x div k" by (simp add: q_def)
    then have "x - k * q = x mod k" using eq by (simp add: algebra_simps minus_div_mult_eq_mod)
    with r q0 True \<open>q = x div k\<close> show ?thesis by simp
  next
    case False
    with q4 have q: "x div k = 4" by simp
    then have "q = 3" by (simp add: q_def)
    from eq q have "x = 4 * k + x mod k" by simp
    with assms(2) r have "x mod k = 0" "x = 4 * k" by auto
    with \<open>q = 3\<close> assms(3) show ?thesis by simp
  qed
qed

lemma YearFromDay_cycles:
  obtains a b c e w :: int where
    "YearFromDay d = 400 * a + 100 * b + 4 * c + e + 1"
    "d = 146097 * a + 36524 * b + 1461 * c + 365 * e + w - 719162"
    "a = (d + 719162) div 146097"
    "0 \<le> b" "b \<le> 3" "0 \<le> c" "c \<le> 24" "0 \<le> e" "e \<le> 3" "0 \<le> w" "w \<le> 365"
    "e < 3 \<longrightarrow> w < 365" "c = 24 \<and> b < 3 \<longrightarrow> w < 365"
proof -
  define d0 where "d0 = d + 719162"
  define a where "a = d0 div 146097"
  define d1 where "d1 = d0 mod 146097"
  define b where "b = min 3 (d1 div 36524)"
  define d2 where "d2 = d1 - 36524 * b"
  define c where "c = d2 div 1461"
  define d3 where "d3 = d2 mod 1461"
  define e where "e = min 3 (d3 div 365)"
  define w where "w = d3 - 365 * e"
  have y: "YearFromDay d = 400 * a + 100 * b + 4 * c + e + 1"
    by (simp add: YearFromDay_def Let_def d0_def a_def d1_def b_def d2_def c_def d3_def e_def)
  have d0: "d0 = 146097 * a + d1" by (simp add: a_def d1_def)
  have d1: "0 \<le> d1" "d1 \<le> 4 * 36524" by (simp_all add: d1_def)
  from div_min3 [OF d1] have b: "0 \<le> b" "b \<le> 3" "0 \<le> d2" "d2 \<le> 36524" "b < 3 \<longrightarrow> d2 < 36524"
    unfolding b_def [symmetric] d2_def [symmetric] by auto
  have d2: "d2 = 1461 * c + d3" by (simp add: c_def d3_def)
  have d3: "0 \<le> d3" "d3 \<le> 4 * 365" by (simp_all add: d3_def)
  have c: "0 \<le> c" "c \<le> 24"
  proof -
    show "0 \<le> c" using b(3) by (simp add: c_def pos_imp_zdiv_nonneg_iff)
    have "d2 div 1461 \<le> 36524 div 1461" using b(4) by (intro zdiv_mono1) auto
    then show "c \<le> 24" by (simp add: c_def)
  qed
  from div_min3 [OF d3] have e: "0 \<le> e" "e \<le> 3" "0 \<le> w" "w \<le> 365" and e3: "e < 3 \<longrightarrow> w < 365"
    unfolding e_def [symmetric] w_def [symmetric] by auto
  have c24: "c = 24 \<and> b < 3 \<longrightarrow> w < 365"
  proof
    assume h: "c = 24 \<and> b < 3"
    with b(5) d2 have "d3 < 1460" by simp
    with e(2) e3 show "w < 365" by (cases "e < 3") (auto simp: w_def)
  qed
  have dd: "d = 146097 * a + 36524 * b + 1461 * c + 365 * e + w - 719162"
    using d0 d2 by (simp add: d0_def d2_def w_def)
  show ?thesis
    using that [OF y dd _ b(1,2) c e e3 c24] by (simp add: a_def d0_def)
qed

lemma int_div_unique: "(x::int) = k * q + r \<Longrightarrow> 0 \<le> r \<Longrightarrow> r < k \<Longrightarrow> x div k = q"
  by (metis int_div_pos_eq mult.commute)

lemma int_mod_unique: "(x::int) = k * q + r \<Longrightarrow> 0 \<le> r \<Longrightarrow> r < k \<Longrightarrow> x mod k = r"
  by (metis int_mod_pos_eq mult.commute)

lemma DayFromYear_cycles:
  assumes "0 \<le> b" "b \<le> 3" "0 \<le> c" "c \<le> 24" "0 \<le> e" "e \<le> (3::int)"
  shows "DayFromYear (400 * a + 100 * b + 4 * c + e + 1)
    = 146097 * a + 36524 * b + 1461 * c + 365 * e - 719162"
proof -
  let ?y = "400 * a + 100 * b + 4 * c + e + 1"
  have 1: "(?y - 1969) div 4 = 100 * a + 25 * b + c - 492"
    using assms by (intro int_div_unique [where r = e]) auto
  have 2: "(?y - 1901) div 100 = 4 * a + b - 19"
    using assms by (intro int_div_unique [where r = "4 * c + e"]) auto
  have 3: "(?y - 1601) div 400 = a - 4"
    using assms by (intro int_div_unique [where r = "100 * b + 4 * c + e"]) auto
  show ?thesis unfolding DayFromYear_def 1 2 3 by simp
qed

lemma DaysInYear_cycles:
  assumes "0 \<le> b" "b \<le> 3" "0 \<le> c" "c \<le> 24" "0 \<le> e" "e \<le> (3::int)"
  shows "DaysInYear (400 * a + 100 * b + 4 * c + e + 1)
    = (if e = 3 \<and> (c < 24 \<or> b = 3) then 366 else 365)"
proof -
  let ?y = "400 * a + 100 * b + 4 * c + e + 1"
  have m4: "?y mod 4 = (if e = 3 then 0 else e + 1)"
  proof (cases "e = 3")
    case True
    then show ?thesis by (simp add: int_mod_unique [where q = "100 * a + 25 * b + c + 1"])
  next
    case False
    with assms have "?y mod 4 = e + 1"
      by (intro int_mod_unique [where q = "100 * a + 25 * b + c"]) auto
    with False show ?thesis by simp
  qed
  have m100: "e = 3 \<Longrightarrow> ?y mod 100 = (if c = 24 then 0 else 4 * c + 4)"
  proof (cases "c = 24")
    case True
    assume "e = 3"
    with True show ?thesis by (simp add: int_mod_unique [where q = "4 * a + b + 1"])
  next
    case False
    assume "e = 3"
    with assms False have "?y mod 100 = 4 * c + 4"
      by (intro int_mod_unique [where q = "4 * a + b"]) auto
    with False show ?thesis by simp
  qed
  have m400: "e = 3 \<Longrightarrow> c = 24 \<Longrightarrow> ?y mod 400 = (if b = 3 then 0 else 100 * b + 100)"
  proof (cases "b = 3")
    case True
    assume "e = 3" "c = 24"
    with True show ?thesis by (simp add: int_mod_unique [where q = "a + 1"])
  next
    case False
    assume "e = 3" "c = 24"
    with assms False have "?y mod 400 = 100 * b + 100"
      by (intro int_mod_unique [where q = a]) auto
    with False show ?thesis by simp
  qed
  show ?thesis
    unfolding DaysInYear_def using assms m4 m100 m400 by auto
qed

lemma DayWithinYear_bounds:
  "0 \<le> DayWithinYear d \<and> DayWithinYear d < DaysInYear (YearFromDay d)"
proof -
  obtain a b c e w :: int where
    y: "YearFromDay d = 400 * a + 100 * b + 4 * c + e + 1" and
    d: "d = 146097 * a + 36524 * b + 1461 * c + 365 * e + w - 719162" and
    r: "0 \<le> b" "b \<le> 3" "0 \<le> c" "c \<le> 24" "0 \<le> e" "e \<le> 3" and
    w: "0 \<le> w" "w \<le> 365" "e < 3 \<longrightarrow> w < 365" "c = 24 \<and> b < 3 \<longrightarrow> w < 365"
    by (rule YearFromDay_cycles [of d]) blast
  have dw: "DayWithinYear d = w"
    unfolding DayWithinYear_def y DayFromYear_cycles [OF r] using d by simp
  show ?thesis
    unfolding dw y DaysInYear_cycles [OF r] using w r by auto
qed

lemma YearFromDay_range:
  assumes "\<bar>d\<bar> \<le> 100000000"
  shows "\<bar>YearFromDay d\<bar> < 1000000"
proof -
  obtain a b c e w :: int where
    y: "YearFromDay d = 400 * a + 100 * b + 4 * c + e + 1" and
    a: "a = (d + 719162) div 146097" and
    r: "0 \<le> b" "b \<le> 3" "0 \<le> c" "c \<le> 24" "0 \<le> e" "e \<le> 3"
    by (rule YearFromDay_cycles [of d]) blast
  have "(d + 719162) div 146097 \<le> 100719162 div 146097"
    using assms by (intro zdiv_mono1) auto
  moreover have "(- 99280838) div 146097 \<le> (d + 719162) div 146097"
    using assms by (intro zdiv_mono1) auto
  ultimately have "- 680 \<le> a" "a \<le> 689" unfolding a by simp_all
  with r show ?thesis unfolding y by simp
qed

lemma InLeapYear_cases: "InLeapYear y = 0 \<or> InLeapYear y = 1"
  by (simp add: InLeapYear_def)

lemma DaysInYear_leap: "DaysInYear y = 365 + InLeapYear y"
  by (simp add: InLeapYear_def DaysInYear_def)

lemma month_bounds:
  assumes "l = 0 \<or> l = 1" "0 \<le> w" "w < 365 + l"
  shows "MonthFromDayWithinYear l w \<le> 11
    \<and> monthStart l (MonthFromDayWithinYear l w) \<le> w
    \<and> w < monthStart l (Suc (MonthFromDayWithinYear l w))"
  using assms unfolding MonthFromDayWithinYear_def monthStart_def by auto

lemma date_bounds:
  "MonthFromDay d \<le> 11 \<and> 1 \<le> DateFromDay d
    \<and> DateFromDay d \<le> DaysInMonth (YearFromDay d) (MonthFromDay d) \<and> DateFromDay d \<le> 31"
proof -
  let ?l = "InLeapYear (YearFromDay d)"
  from DayWithinYear_bounds [of d]
  have w: "0 \<le> DayWithinYear d" "DayWithinYear d < 365 + ?l"
    by (simp_all add: DaysInYear_leap)
  from month_bounds [OF InLeapYear_cases w]
  have m: "MonthFromDay d \<le> 11"
    "monthStart ?l (MonthFromDay d) \<le> DayWithinYear d"
    "DayWithinYear d < monthStart ?l (Suc (MonthFromDay d))"
    by (simp_all add: MonthFromDay_def)
  have "monthStart ?l (Suc (MonthFromDay d)) - monthStart ?l (MonthFromDay d) \<le> 31"
    using InLeapYear_cases [of "YearFromDay d"] by (auto simp: monthStart_def)
  with m show ?thesis
    by (simp add: DateFromDay_def DaysInMonth_def)
qed

lemma MakeDay_inverse: "MakeDay (YearFromDay d) (MonthFromDay d) (DateFromDay d) = d"
  by (simp add: MakeDay_def DateFromDay_def DayWithinYear_def)

lemma hd_digitsN_not_sign:
  "0 < k \<Longrightarrow> hd (digitsN k n) \<noteq> CHR ''+'' \<and> hd (digitsN k n) \<noteq> CHR ''-''"
proof -
  assume "0 < k"
  then have "digitsN k n \<noteq> []" using length_digitsN [of k n] by auto
  then have "hd (digitsN k n) \<in> set (digitsN k n)" by simp
  then have "isDigit (hd (digitsN k n))" using digits_digitsN [of k n] by (simp add: list_all_iff)
  then show ?thesis by (auto simp: isDigit_def code_def)
qed

lemma isoYear_isoYearString:
  assumes "\<bar>y\<bar> < 1000000"
  shows "isoYear (isoYearString y) = Some y"
proof (cases "0 \<le> y \<and> y \<le> 9999")
  case True
  have ne: "digitsN 4 (nat y) \<noteq> []" using length_digitsN [of 4 "nat y"] by auto
  then obtain c ds where cd: "digitsN 4 (nat y) = c # ds" by (cases "digitsN 4 (nat y)") auto
  from hd_digitsN_not_sign [of 4 "nat y"] cd have c: "c \<noteq> CHR ''+''" "c \<noteq> CHR ''-''" by auto
  from True have "nat y < 10000" by linarith
  then have "parseInt10 (digitsN 4 (nat y)) = nat y"
    by (simp add: parseInt10_digitsN)
  moreover have "length (digitsN 4 (nat y)) = 4" "list_all isDigit (digitsN 4 (nat y))"
    by (simp_all add: length_digitsN digits_digitsN)
  ultimately have "isoYear (digitsN 4 (nat y)) = Some y"
    using True c unfolding isoYear_def cd by simp
  with True show ?thesis by (simp add: isoYearString_def)
next
  case False
  have p: "parseInt10 (digitsN 6 (nat \<bar>y\<bar>)) = nat \<bar>y\<bar>"
    using assms by (simp add: parseInt10_digitsN)
  have l: "length (digitsN 6 (nat \<bar>y\<bar>)) = 6" "list_all isDigit (digitsN 6 (nat \<bar>y\<bar>))"
    by (simp_all add: length_digitsN digits_digitsN)
  show ?thesis
  proof (cases "y < 0")
    case True
    with False p l show ?thesis by (simp add: isoYearString_def isoYear_def)
  next
    case False
    with \<open>\<not> (0 \<le> y \<and> y \<le> 9999)\<close> p l show ?thesis by (simp add: isoYearString_def isoYear_def)
  qed
qed

lemma parseISODate_isoDateString:
  assumes "\<bar>d\<bar> \<le> 100000000"
  shows "parseISODate (isoDateString d) = Some (d * msPerDay)"
proof -
  let ?y = "YearFromDay d" and ?m = "MonthFromDay d" and ?dt = "DateFromDay d"
  let ?ys = "isoYearString ?y"
  from date_bounds [of d] have b: "?m \<le> 11" "1 \<le> ?dt" "?dt \<le> DaysInMonth ?y ?m" "?dt \<le> 31"
    by auto
  obtain m1 m2 where mm: "digitsN 2 (Suc ?m) = [m1, m2]" by (simp add: digitsN_2)
  obtain d1 d2 where dd: "digitsN 2 (nat ?dt) = [d1, d2]" by (simp add: digitsN_2)
  have dig: "list_all isDigit [m1, m2, d1, d2]"
    using digits_digitsN [of 2 "Suc ?m"] digits_digitsN [of 2 "nat ?dt"] unfolding mm dd by simp
  have pm: "parseInt10 [m1, m2] = Suc ?m"
    using parseInt10_digitsN [of 2 "Suc ?m"] b(1) unfolding mm by simp
  have pd: "int (parseInt10 [d1, d2]) = ?dt"
    using parseInt10_digitsN [of 2 "nat ?dt"] b(2,4) unfolding dd by simp
  have s: "isoDateString d = ?ys @ [CHR ''-'', m1, m2, CHR ''-'', d1, d2]"
    by (simp add: isoDateString_def mm dd)
  have tk: "drop (length (isoDateString d) - 6) (isoDateString d) = [CHR ''-'', m1, m2, CHR ''-'', d1, d2]"
    "take (length (isoDateString d) - 6) (isoDateString d) = ?ys"
    unfolding s by simp_all
  have y: "isoYear ?ys = Some ?y"
    by (rule isoYear_isoYearString [OF YearFromDay_range [OF assms]])
  show ?thesis
    unfolding parseISODate_def tk using dig y pm pd b MakeDay_inverse [of d]
    by (simp add: Let_def)
qed

lemma Day_bounds:
  assumes "\<bar>t\<bar> \<le> 8640000000000000"
  shows "\<bar>Day t\<bar> \<le> 100000000" and "\<bar>Day t * msPerDay\<bar> \<le> 8640000000000000"
proof -
  have eq: "t = msPerDay * Day t + t mod msPerDay" by (simp add: Day_def)
  have r: "0 \<le> t mod msPerDay" "t mod msPerDay < msPerDay" by (simp_all add: msPerDay_def)
  from eq r assms show d: "\<bar>Day t\<bar> \<le> 100000000" unfolding msPerDay_def by linarith
  from d show "\<bar>Day t * msPerDay\<bar> \<le> 8640000000000000" unfolding msPerDay_def by linarith
qed

lemma Day_midnight: "Day (d * msPerDay) = d" "TimeWithinDay (d * msPerDay) = 0"
  by (simp_all add: Day_def TimeWithinDay_def msPerDay_def)

lemma no_T_digits: "list_all isDigit s \<Longrightarrow> CHR ''T'' \<notin> set s"
  by (auto simp: list_all_iff isDigit_def code_def)

lemma no_T_isoDateString: "CHR ''T'' \<notin> set (isoDateString d)"
  using no_T_digits [OF digits_digitsN]
  by (auto simp: isoDateString_def isoYearString_def)

lemma date_part: "takeWhile (\<lambda>c. c \<noteq> CHR ''T'') (toISOString t) = isoDateString (Day t)"
proof -
  have "\<forall>x \<in> set (isoDateString (Day t)). x \<noteq> CHR ''T''"
    using no_T_isoDateString [of "Day t"] by auto
  then show ?thesis by (simp add: toISOString_def)
qed

lemma normalizeDate_Inr:
  "normalizeDate impl s = Inr s' \<Longrightarrow>
    \<exists>t. Date_getTime impl s = Some t \<and> \<bar>t\<bar> \<le> 8640000000000000 \<and> s' = isoDateString (Day t)"
  by (auto simp: normalizeDate_def date_part Date_getTime_def TimeClip_def
      split: option.splits if_splits)

lemma normalizeDate_canonical:
  assumes "\<bar>d\<bar> \<le> 100000000"
  shows "normalizeDate impl (isoDateString d) = Inr (isoDateString d)"
proof -
  have "\<bar>d * msPerDay\<bar> \<le> 8640000000000000" using assms unfolding msPerDay_def by linarith
  then have "Date_getTime impl (isoDateString d) = Some (d * msPerDay)"
    by (simp add: Date_getTime_def parseISODate_isoDateString [OF assms] TimeClip_def)
  then show ?thesis by (simp add: normalizeDate_def date_part Day_midnight)
qed

lemma normalizeDate_idem:
  assumes "normalizeDate impl s = Inr s'"
  shows "normalizeDate impl s' = Inr s'"
proof -
  from normalizeDate_Inr [OF assms] obtain t where
    t: "\<bar>t\<bar> \<le> 8640000000000000" and s': "s' = isoDateString (Day t)" by blast
  from normalizeDate_canonical [OF Day_bounds(1) [OF t]] show ?thesis by (simp add: s')
qed

lemma year_cycles:
  obtains a b c e :: int where
    "y = 400 * a + 100 * b + 4 * c + e + 1"
    "0 \<le> b" "b \<le> 3" "0 \<le> c" "c \<le> 24" "0 \<le> e" "e \<le> 3"
proof -
  define a where "a = (y - 1) div 400"
  define r where "r = (y - 1) mod 400"
  define b where "b = r div 100"
  define r2 where "r2 = r mod 100"
  define c where "c = r2 div 4"
  define e where "e = r2 mod 4"
  have y: "y - 1 = 400 * a + r" by (simp add: a_def r_def)
  have r: "r = 100 * b + r2" by (simp add: b_def r2_def)
  have r2: "r2 = 4 * c + e" by (simp add: c_def e_def)
  have rb: "0 \<le> r" "r < 400" by (simp_all add: r_def)
  have r2b: "0 \<le> r2" "r2 < 100" by (simp_all add: r2_def)
  have eb: "0 \<le> e" "e < 4" by (simp_all add: e_def)
  from r rb r2b have bb: "0 \<le> b" "b \<le> 3" by linarith+
  from r2 r2b eb have cb: "0 \<le> c" "c \<le> 24" by linarith+
  from y r r2 have "y = 400 * a + 100 * b + 4 * c + e + 1" by linarith
  from that [OF this bb cb eb(1)] eb(2) show ?thesis by simp
qed

lemma DayFromYear_next: "DayFromYear (y + 1) = DayFromYear y + DaysInYear y"
proof -
  obtain a b c e :: int where
    y: "y = 400 * a + 100 * b + 4 * c + e + 1" and
    r: "0 \<le> b" "b \<le> 3" "0 \<le> c" "c \<le> 24" "0 \<le> e" "e \<le> 3"
    by (rule year_cycles [of y]) blast
  note here = DayFromYear_cycles [OF r, of a] DaysInYear_cycles [OF r, of a]
  consider "e < 3" | "e = 3" "c < 24" | "e = 3" "c = 24" "b < 3" | "e = 3" "c = 24" "b = 3"
    using r by linarith
  then show ?thesis
  proof cases
    case 1
    have "y + 1 = 400 * a + 100 * b + 4 * c + (e + 1) + 1" by (simp add: y)
    moreover have "DayFromYear (400 * a + 100 * b + 4 * c + (e + 1) + 1)
        = 146097 * a + 36524 * b + 1461 * c + 365 * (e + 1) - 719162"
      using r 1 by (intro DayFromYear_cycles) auto
    ultimately show ?thesis using here 1 by (simp add: y)
  next
    case 2
    have "y + 1 = 400 * a + 100 * b + 4 * (c + 1) + 0 + 1" by (simp add: y 2)
    moreover have "DayFromYear (400 * a + 100 * b + 4 * (c + 1) + 0 + 1)
        = 146097 * a + 36524 * b + 1461 * (c + 1) + 365 * 0 - 719162"
      using r 2 by (intro DayFromYear_cycles) auto
    ultimately show ?thesis using here 2 by (simp add: y)
  next
    case 3
    have "y + 1 = 400 * a + 100 * (b + 1) + 4 * 0 + 0 + 1" by (simp add: y 3)
    moreover have "DayFromYear (400 * a + 100 * (b + 1) + 4 * 0 + 0 + 1)
        = 146097 * a + 36524 * (b + 1) + 1461 * 0 + 365 * 0 - 719162"
      using r 3 by (intro DayFromYear_cycles) auto
    ultimately show ?thesis using here 3 by (simp add: y)
  next
    case 4
    have "y + 1 = 400 * (a + 1) + 100 * 0 + 4 * 0 + 0 + 1" by (simp add: y 4)
    moreover have "DayFromYear (400 * (a + 1) + 100 * 0 + 4 * 0 + 0 + 1)
        = 146097 * (a + 1) + 36524 * 0 + 1461 * 0 + 365 * 0 - 719162"
      by (intro DayFromYear_cycles) auto
    ultimately show ?thesis using here 4 by (simp add: y)
  qed
qed

lemma DayFromYear_mono_nat: "DayFromYear y \<le> DayFromYear (y + int n)"
proof (induction n)
  case 0
  show ?case by simp
next
  case (Suc n)
  have "y + int (Suc n) = y + int n + 1" by simp
  then have "DayFromYear (y + int (Suc n)) = DayFromYear (y + int n) + DaysInYear (y + int n)"
    by (simp only: DayFromYear_next)
  moreover have "0 \<le> DaysInYear (y + int n)" by (simp add: DaysInYear_def)
  ultimately show ?case using Suc by linarith
qed

lemma DayFromYear_mono: "y \<le> z \<Longrightarrow> DayFromYear y \<le> DayFromYear z"
  using DayFromYear_mono_nat [of y "nat (z - y)"] by simp

text \<open>\<open>YearFromDay\<close> is the year the specification defines: the largest \<open>y\<close>
  with \<open>DayFromYear y \<le> d\<close>.\<close>

lemma YearFromDay_largest:
  "DayFromYear (YearFromDay d) \<le> d \<and> (\<forall>y. DayFromYear y \<le> d \<longrightarrow> y \<le> YearFromDay d)"
proof -
  from DayWithinYear_bounds [of d]
  have lo: "DayFromYear (YearFromDay d) \<le> d"
    and hi: "d < DayFromYear (YearFromDay d + 1)"
    by (simp_all add: DayWithinYear_def DayFromYear_next)
  have "y \<le> YearFromDay d" if "DayFromYear y \<le> d" for y
  proof (rule ccontr)
    assume "\<not> y \<le> YearFromDay d"
    then have "YearFromDay d + 1 \<le> y" by simp
    from DayFromYear_mono [OF this] hi that show False by linarith
  qed
  with lo show ?thesis by blast
qed

section \<open>Lemmas: examples of dates, and the Event hook\<close>

lemma isoDateString_eval:
  assumes "YearFromDay d = y" "DayFromYear y = f" "InLeapYear y = l"
    "MonthFromDayWithinYear l (d - f) = m"
  shows "isoDateString d =
    isoYearString y @ ''-'' @ digitsN 2 (Suc m) @ ''-'' @ digitsN 2 (nat (d - f - monthStart l m + 1))"
  by (simp add: isoDateString_def MonthFromDay_def DateFromDay_def DayWithinYear_def assms)

lemma isoDateString_20152: "isoDateString 20152 = ''2025-03-05''"
proof -
  have y: "YearFromDay 20152 = 2025" by (simp add: YearFromDay_def)
  have f: "DayFromYear 2025 = 20089" by (simp add: DayFromYear_def)
  have l: "InLeapYear 2025 = 0" by (simp add: InLeapYear_def DaysInYear_def)
  have m: "MonthFromDayWithinYear 0 (20152 - 20089) = 2" by (simp add: MonthFromDayWithinYear_def)
  show ?thesis
    unfolding isoDateString_eval [OF y f l m]
    by (simp add: isoYearString_def digitsN_4 digitsN_2 digitChar_def monthStart_def)
qed

lemma isoDateString_20151: "isoDateString 20151 = ''2025-03-04''"
proof -
  have y: "YearFromDay 20151 = 2025" by (simp add: YearFromDay_def)
  have f: "DayFromYear 2025 = 20089" by (simp add: DayFromYear_def)
  have l: "InLeapYear 2025 = 0" by (simp add: InLeapYear_def DaysInYear_def)
  have m: "MonthFromDayWithinYear 0 (20151 - 20089) = 2" by (simp add: MonthFromDayWithinYear_def)
  show ?thesis
    unfolding isoDateString_eval [OF y f l m]
    by (simp add: isoYearString_def digitsN_4 digitsN_2 digitChar_def monthStart_def)
qed

lemma isoDateString_2932897: "isoDateString 2932897 = ''+010000-01-01''"
proof -
  have y: "YearFromDay 2932897 = 10000" by (simp add: YearFromDay_def)
  have f: "DayFromYear 10000 = 2932897" by (simp add: DayFromYear_def)
  have l: "InLeapYear 10000 = 1" by (simp add: InLeapYear_def DaysInYear_def)
  have m: "MonthFromDayWithinYear 1 (2932897 - 2932897) = 0" by (simp add: MonthFromDayWithinYear_def)
  show ?thesis
    unfolding isoDateString_eval [OF y f l m]
    by (simp add: isoYearString_def digitsN_6 digitsN_2 digitChar_def monthStart_def)
qed

lemma normalizeDate_2025_03_05: "normalizeDate impl ''2025-03-05'' = Inr ''2025-03-05''"
  using normalizeDate_canonical [of 20152 impl] by (simp add: isoDateString_20152)

lemma normalizeDate_year_10000: "normalizeDate impl ''+010000-01-01'' = Inr ''+010000-01-01''"
  using normalizeDate_canonical [of 2932897 impl] by (simp add: isoDateString_2932897)

lemma parseISODate_March: "parseISODate ''March 5, 2025'' = None"
  by (simp add: parseISODate_def)

lemma Day_within:
  assumes "msPerDay * d \<le> t" "t < msPerDay * (d + 1)"
  shows "Day t = d"
  unfolding Day_def
  using assms by (intro int_div_unique [where r = "t - msPerDay * d"]) (auto simp: msPerDay_def)

lemma normalizeDate_impl:
  assumes "parseISODate s = None" "impl s = Some t" "\<bar>t\<bar> \<le> 8640000000000000"
  shows "normalizeDate impl s = Inr (isoDateString (Day t))"
  using assms by (simp add: normalizeDate_def Date_getTime_def TimeClip_def date_part)

lemma normalizeDate_March:
  assumes "impl ''March 5, 2025'' = Some t" "1741132800000 \<le> t" "t < 1741219200000"
  shows "normalizeDate impl ''March 5, 2025'' = Inr ''2025-03-05''"
proof -
  have "Day t = 20152" using assms(2,3) by (intro Day_within) (simp_all add: msPerDay_def)
  moreover have "\<bar>t\<bar> \<le> 8640000000000000" using assms(2,3) by simp
  ultimately show ?thesis
    using normalizeDate_impl [where impl = impl, OF parseISODate_March assms(1)]
    by (simp add: isoDateString_20152)
qed

lemma normalizeDate_March_cet: "normalizeDate cetRuntime ''March 5, 2025'' = Inr ''2025-03-04''"
proof -
  have i: "cetRuntime ''March 5, 2025'' = Some 1741129200000" by (simp add: cetRuntime_def)
  have "Day 1741129200000 = 20151" by (intro Day_within) (simp_all add: msPerDay_def)
  then show ?thesis
    using normalizeDate_impl [where impl = cetRuntime, OF parseISODate_March i]
    by (simp add: isoDateString_20151)
qed

text \<open>A date of the years 0 to 9999 is printed in the form YYYY-MM-DD.\<close>

lemma isCalendarForm_iso:
  assumes "0 \<le> YearFromDay d" "YearFromDay d \<le> 9999"
  shows "isCalendarForm (isoDateString d)"
proof -
  let ?y = "digitsN 4 (nat (YearFromDay d))"
  obtain y1 y2 y3 y4 where y: "?y = [y1, y2, y3, y4]" by (simp add: digitsN_4)
  obtain m1 m2 where m: "digitsN 2 (Suc (MonthFromDay d)) = [m1, m2]" by (simp add: digitsN_2)
  obtain d1 d2 where dd: "digitsN 2 (nat (DateFromDay d)) = [d1, d2]" by (simp add: digitsN_2)
  have s: "isoDateString d = [y1, y2, y3, y4, CHR ''-'', m1, m2, CHR ''-'', d1, d2]"
    using assms by (simp add: isoDateString_def isoYearString_def y m dd)
  have "list_all isDigit [y1, y2, y3, y4]" "list_all isDigit [m1, m2]" "list_all isDigit [d1, d2]"
    using digits_digitsN [of 4 "nat (YearFromDay d)"] digits_digitsN [of 2 "Suc (MonthFromDay d)"]
      digits_digitsN [of 2 "nat (DateFromDay d)"]
    unfolding y m dd by simp_all
  then show ?thesis unfolding s isCalendarForm_def by simp
qed

lemma not_isCalendarForm_year_10000: "\<not> isCalendarForm ''+010000-01-01''"
  by (simp add: isCalendarForm_def)

lemma content_assign: "content (assign path get put v doc) = put v (content doc)"
  by (simp add: assign_def markModified_def Let_def)

lemma isNew_assign: "isNew (assign path get put v doc) = isNew doc"
  by (simp add: assign_def markModified_def Let_def)

lemma modifiedPaths_assign:
  "set (modifiedPaths doc) \<subseteq> set (modifiedPaths (assign path get put v doc))
   \<and> set (modifiedPaths (assign path get put v doc)) \<subseteq> insert path (set (modifiedPaths doc))"
  by (auto simp: assign_def markModified_def Let_def)

lemma pre_save_Inr:
  "eventSchema_pre_save impl doc = Inr doc' \<longleftrightarrow>
    (\<exists>d t. normalizeDate impl (date (content doc)) = Inr d
       \<and> normalizeTime (time (content doc)) = Inr t
       \<and> doc' = assign ''time'' time (\<lambda>v e. e\<lparr>time := v\<rparr>) t
                  (assign ''date'' date (\<lambda>v e. e\<lparr>date := v\<rparr>) d
                    (if isNew doc \<or> isModified doc ''title''
                     then assign ''slug'' slug (\<lambda>v e. e\<lparr>slug := v\<rparr>)
                            (slugify (title (content doc))) doc
                     else doc)))"
  by (auto simp: eventSchema_pre_save_def Let_def content_assign split: sum.splits)

lemma pre_save_content:
  assumes "eventSchema_pre_save impl doc = Inr doc'"
  shows "\<exists>d t. normalizeDate impl (date (content doc)) = Inr d
       \<and> normalizeTime (time (content doc)) = Inr t
       \<and> content doc' = (content doc)
            \<lparr>slug := (if isNew doc \<or> isModified doc ''title''
                      then slugify (title (content doc)) else slug (content doc)),
             date := d, time := t\<rparr>
       \<and> isNew doc' = isNew doc"
  using assms unfolding pre_save_Inr by (auto simp: content_assign isNew_assign)

lemma pre_save_paths:
  assumes "eventSchema_pre_save impl doc = Inr doc'"
  shows "set (modifiedPaths doc) \<subseteq> set (modifiedPaths doc')
    \<and> set (modifiedPaths doc') \<subseteq> set (modifiedPaths doc) \<union> {''slug'', ''date'', ''time''}"
proof -
  from assms obtain d t where
    doc': "doc' = assign ''time'' time (\<lambda>v e. e\<lparr>time := v\<rparr>) t
                  (assign ''date'' date (\<lambda>v e. e\<lparr>date := v\<rparr>) d
                    (if isNew doc \<or> isModified doc ''title''
                     then assign ''slug'' slug (\<lambda>v e. e\<lparr>slug := v\<rparr>)
                            (slugify (title (content doc))) doc
                     else doc))"
    unfolding pre_save_Inr by blast
  let ?d1 = "if isNew doc \<or> isModified doc ''title''
             then assign ''slug'' slug (\<lambda>v e. e\<lparr>slug := v\<rparr>) (slugify (title (content doc))) doc
             else doc"
  let ?d2 = "assign ''date'' date (\<lambda>v e. e\<lparr>date := v\<rparr>) d ?d1"
  have 1: "set (modifiedPaths doc) \<subseteq> set (modifiedPaths ?d1)
      \<and> set (modifiedPaths ?d1) \<subseteq> insert ''slug'' (set (modifiedPaths doc))"
    using modifiedPaths_assign [of doc "''slug''" slug "\<lambda>v e. e\<lparr>slug := v\<rparr>"
        "slugify (title (content doc))"]
    by (cases "isNew doc \<or> isModified doc ''title''") auto
  have 2: "set (modifiedPaths ?d1) \<subseteq> set (modifiedPaths ?d2)
      \<and> set (modifiedPaths ?d2) \<subseteq> insert ''date'' (set (modifiedPaths ?d1))"
    by (rule modifiedPaths_assign)
  have 3: "set (modifiedPaths ?d2) \<subseteq> set (modifiedPaths doc')
      \<and> set (modifiedPaths doc') \<subseteq> insert ''time'' (set (modifiedPaths ?d2))"
    unfolding doc' by (rule modifiedPaths_assign)
  from 1 2 3 show ?thesis by blast
qed

lemma pre_save_succeeds:
  assumes "normalizeDate impl (date (content doc)) = Inr d"
    "normalizeTime (time (content doc)) = Inr t"
  shows "\<exists>doc'. eventSchema_pre_save impl doc = Inr doc'
    \<and> date (content doc') = d \<and> time (content doc') = t"
  using assms unfolding pre_save_Inr by (simp add: content_assign)

lemma normalizeTime_1430: "normalizeTime ''14:30'' = Inr ''14:30''"
  using normalizeTime_idem [OF normalizeTime_afternoon] .

lemmas hook_eval = pre_save_Inr assign_def markModified_def isModified_def Let_def

lemma example_saved: "eventSchema_pre_save impl exampleEvent = Inr exampleSaved"
  by (simp add: hook_eval exampleEvent_def exampleSaved_def normalizeDate_2025_03_05
      normalizeTime_afternoon slugify_hello)

section \<open>Lemmas: bookings and the connection\<close>

lemma connect_failed:
  assumes "connectToDatabase outcome cached = (Inl e, cached')"
  shows "promise cached' \<noteq> None \<and> conn cached = None \<and> conn cached' = None
    \<and> attempts cached' = (if promise cached = None then Suc (attempts cached) else attempts cached)
    \<and> connectToDatabase outcome cached' = (Inl e, cached')"
  using assms
  by (auto simp: connectToDatabase_def Let_def split: option.splits sum.splits prod.splits)

lemma hook_skips:
  "\<not> isNew doc \<Longrightarrow> \<not> isModified doc ''eventId'' \<Longrightarrow> BookingSchema_pre_save db doc = (None, 0)"
  by (simp add: BookingSchema_pre_save_def)

lemma hook_looks_up:
  "isNew doc \<or> isModified doc ''eventId'' \<Longrightarrow> snd (BookingSchema_pre_save db doc) = 1"
  by (auto simp: BookingSchema_pre_save_def Event_findById_def)

lemma hook_model_ts_lookup: "snd (bookingSchema_pre_save db doc) = 1"
  by (simp add: bookingSchema_pre_save_def Event_findById_def split: sum.splits option.splits)

lemma hook_missing:
  assumes "eventId (content doc) \<notin> set (events db)" "isNew doc \<or> isModified doc ''eventId''"
  shows "fst (BookingSchema_pre_save db doc)
           = Some (Renamed ''ValidationError'' (EventDoesNotExist (eventId (content doc))))
       \<or> fst (BookingSchema_pre_save db doc)
           = Some (Renamed ''ValidationError'' InvalidEventIdOrDatabaseError)"
  using assms by (auto simp: BookingSchema_pre_save_def Event_findById_def)

lemma save_missing:
  assumes "eventId (content doc) \<notin> set (events db)" "isNew doc \<or> isModified doc ''eventId''"
  shows "\<exists>err. Booking_save now db doc = Inl err \<and> isValidationError err"
proof (cases "validateBooking emailRegex_test (content doc)")
  case (Some err)
  then have "isValidationError err"
    by (auto simp: validateBooking_def split: if_splits)
  with Some show ?thesis by (simp add: Booking_save_def saveWith_def)
next
  case None
  from hook_missing [OF assms] None show ?thesis
    by (auto simp: Booking_save_def saveWith_def)
qed

lemma save_model_ts_missing:
  assumes "eventId (content doc) \<notin> set (events db)"
  shows "\<exists>err. Booking_save_model_ts now db doc = Inl err"
proof (cases "validateBooking EMAIL_REGEX_test (content doc)")
  case (Some err)
  then show ?thesis by (simp add: Booking_save_model_ts_def saveWith_def)
next
  case None
  with assms show ?thesis
    by (auto simp: Booking_save_model_ts_def saveWith_def bookingSchema_pre_save_def
        Event_findById_def)
qed

text \<open>The error of the hook of booking.model.ts is a plain \<open>Error\<close>: when the email
  is valid and the database answers, a save of a Booking of a missing Event fails with
  an error that is not named \<open>ValidationError\<close>.\<close>

lemma save_model_ts_plain_error:
  assumes "eventId (content doc) \<notin> set (events db)" "reachable db"
    "validateBooking EMAIL_REGEX_test (content doc) = None"
  shows "Booking_save_model_ts now db doc = Inl (ReferencedEventDoesNotExist (eventId (content doc)))
    \<and> \<not> isValidationError (ReferencedEventDoesNotExist (eventId (content doc)))"
  using assms
  by (simp add: Booking_save_model_ts_def saveWith_def bookingSchema_pre_save_def
      Event_findById_def)

lemma indexKey_pair:
  "indexKey [''eventId'', ''email''] a = indexKey [''eventId'', ''email''] b \<longleftrightarrow> pairKey a = pairKey b"
  by (simp add: indexKey_def pairKey_def)

lemma indexKey_id: "indexKey [''_id''] a = indexKey [''_id''] b \<longleftrightarrow> oid a = oid b"
  by (simp add: indexKey_def)

lemma violatedIndex_None:
  "violatedIndex BookingSchema_indexes rows b = None \<longleftrightarrow>
     oid b \<notin> oid ` set rows \<and> pairKey b \<notin> pairKey ` set rows"
  by (auto simp: BookingSchema_indexes_def indexKey_pair indexKey_id image_iff)

lemma violatedIndex_pair:
  "pairKey b \<in> pairKey ` set rows \<Longrightarrow> \<exists>paths. violatedIndex BookingSchema_indexes rows b = Some paths"
  using violatedIndex_None [of rows b] by (cases "violatedIndex BookingSchema_indexes rows b") auto

lemma insert_unique:
  assumes "uniqueIds db" "uniqueBookings db"
    "insertBooking BookingSchema_indexes now db b = Inr db'"
  shows "uniqueIds db' \<and> uniqueBookings db'"
proof -
  let ?row = "b\<lparr>bookedAt := now, changedAt := now\<rparr>"
  from assms(3) have v: "violatedIndex BookingSchema_indexes (bookings db) ?row = None"
    and db': "db' = db\<lparr>bookings := bookings db @ [?row]\<rparr>"
    by (auto simp: insertBooking_def Let_def split: if_splits option.splits)
  from v have "oid ?row \<notin> oid ` set (bookings db)" "pairKey ?row \<notin> pairKey ` set (bookings db)"
    by (simp_all add: violatedIndex_None)
  with assms(1,2) show ?thesis
    by (simp add: db' uniqueIds_def uniqueBookings_def)
qed

lemma replace_distinct:
  assumes "distinct (map oid rows)" "distinct (map pairKey rows)"
    "\<forall>r \<in> set rows. oid r \<noteq> oid row \<longrightarrow> pairKey r \<noteq> pairKey row"
  shows "distinct (map pairKey (map (\<lambda>r. if oid r = oid row then row else r) rows))"
  using assms
proof (induction rows)
  case Nil
  show ?case by simp
next
  case (Cons r rs)
  let ?f = "\<lambda>r. if oid r = oid row then row else r"
  from Cons have ih: "distinct (map pairKey (map ?f rs))" by simp
  show ?case
  proof (cases "oid r = oid row")
    case True
    from Cons.prems(1) have "oid r \<notin> oid ` set rs" by simp
    with True have "\<forall>x \<in> set rs. oid x \<noteq> oid row" by (metis imageI)
    then have same: "map ?f rs = rs" by (simp add: map_idI)
    from \<open>\<forall>x \<in> set rs. oid x \<noteq> oid row\<close> Cons.prems(3)
    have "pairKey row \<notin> pairKey ` set rs" by auto
    with True same Cons.prems(2) show ?thesis by simp
  next
    case False
    with Cons.prems(3) have ne: "pairKey r \<noteq> pairKey row" by simp
    from Cons.prems(2) have nr: "pairKey r \<notin> pairKey ` set rs" by simp
    have "\<forall>x \<in> set rs. pairKey (?f x) \<noteq> pairKey r"
    proof
      fix x
      assume x: "x \<in> set rs"
      show "pairKey (?f x) \<noteq> pairKey r"
      proof (cases "oid x = oid row")
        case True
        with ne show ?thesis by simp
      next
        case False
        from x nr have "pairKey x \<noteq> pairKey r" by (metis imageI)
        with False show ?thesis by simp
      qed
    qed
    then have "pairKey r \<notin> set (map pairKey (map ?f rs))" by auto
    with False ih show ?thesis by simp
  qed
qed

lemma update_unique:
  assumes "uniqueIds db" "uniqueBookings db"
    "updateBooking BookingSchema_indexes now db doc = Inr db'"
  shows "uniqueIds db' \<and> uniqueBookings db'"
proof (cases "modifiedPaths doc = []")
  case True
  with assms(3) have "db' = db"
    by (auto simp: updateBooking_def split: if_splits list.splits)
  with assms(1,2) show ?thesis by simp
next
  case False
  from assms(3) obtain old rest where
    f: "filter (\<lambda>r. oid r = oid (content doc)) (bookings db) = old # rest"
    by (auto simp: updateBooking_def split: if_splits list.splits)
  define row where "row = updatedRow now doc old"
  from assms(3) f False have
    v: "violatedIndex BookingSchema_indexes (filter (\<lambda>r. oid r \<noteq> oid row) (bookings db)) row = None"
    and db': "db' = db\<lparr>bookings := map (\<lambda>r. if oid r = oid row then row else r) (bookings db)\<rparr>"
    by (auto simp: updateBooking_def Let_def row_def split: if_splits option.splits)
  let ?f = "\<lambda>r. if oid r = oid row then row else r"
  have ids: "map oid (map ?f (bookings db)) = map oid (bookings db)"
    by (induction "bookings db") auto
  from v have "\<forall>r \<in> set (bookings db). oid r \<noteq> oid row \<longrightarrow> pairKey r \<noteq> pairKey row"
    by (auto simp: violatedIndex_None image_iff)
  with assms(1,2) have "distinct (map pairKey (map ?f (bookings db)))"
    unfolding uniqueIds_def uniqueBookings_def by (intro replace_distinct)
  moreover from assms(1) have "distinct (map oid (map ?f (bookings db)))"
    unfolding ids uniqueIds_def .
  ultimately show ?thesis
    unfolding db' uniqueIds_def uniqueBookings_def by simp
qed

lemma save_unique:
  assumes "uniqueIds db" "uniqueBookings db" "Booking_save now db doc = Inr db'"
  shows "uniqueIds db' \<and> uniqueBookings db'"
proof -
  from assms(3) have "persistBooking BookingSchema_indexes now db doc = Inr db'"
    by (auto simp: Booking_save_def saveWith_def split: option.splits)
  then show ?thesis
    using insert_unique [OF assms(1,2)] update_unique [OF assms(1,2)]
    by (auto simp: persistBooking_def split: if_splits)
qed

lemma validateBooking_email:
  "email a = email b \<Longrightarrow> validateBooking v a = validateBooking v b"
  by (simp add: validateBooking_def)

lemma create_twice:
  assumes "Booking_save now db (newBooking i ev raw) = Inr db'" "setEmail raw2 = setEmail raw"
  shows "\<exists>paths. Booking_save now' db' (newBooking j ev raw2) = Inl (DuplicateKey paths)"
proof -
  let ?b = "content (newBooking i ev raw)"
  let ?row = "?b\<lparr>bookedAt := now, changedAt := now\<rparr>"
  from assms(1) have val: "validateBooking emailRegex_test ?b = None"
    and hook: "fst (BookingSchema_pre_save db (newBooking i ev raw)) = None"
    and ins: "insertBooking BookingSchema_indexes now db ?b = Inr db'"
    by (auto simp: Booking_save_def saveWith_def persistBooking_def newBooking_def
        split: option.splits)
  from ins have r: "reachable db" and db': "db' = db\<lparr>bookings := bookings db @ [?row]\<rparr>"
    by (auto simp: insertBooking_def Let_def split: if_splits option.splits)
  from hook r have ev: "ev \<in> set (events db)"
    by (auto simp: BookingSchema_pre_save_def Event_findById_def newBooking_def split: if_splits)
  let ?c = "content (newBooking j ev raw2)"
  have val': "validateBooking emailRegex_test ?c = None"
    using val validateBooking_email [of ?c ?b emailRegex_test] assms(2) by (simp add: newBooking_def)
  have hook': "fst (BookingSchema_pre_save db' (newBooking j ev raw2)) = None"
    using ev r by (simp add: BookingSchema_pre_save_def Event_findById_def newBooking_def db')
  have "pairKey (?c\<lparr>bookedAt := now', changedAt := now'\<rparr>) \<in> pairKey ` set (bookings db')"
    using assms(2) by (simp add: db' pairKey_def newBooking_def)
  from violatedIndex_pair [OF this] obtain paths where
    "violatedIndex BookingSchema_indexes (bookings db') (?c\<lparr>bookedAt := now', changedAt := now'\<rparr>) = Some paths"
    by blast
  then have "insertBooking BookingSchema_indexes now' db' ?c = Inl (DuplicateKey paths)"
    using r by (simp add: insertBooking_def db')
  with val' hook' show ?thesis
    by (auto simp: Booking_save_def saveWith_def persistBooking_def newBooking_def)
qed

lemma insert_duplicate:
  assumes "b \<in> set (bookings db)" "pairKey b = pairKey c"
  shows "\<exists>err. insertBooking BookingSchema_indexes now db c = Inl err"
proof -
  have "pairKey (c\<lparr>bookedAt := now, changedAt := now\<rparr>) = pairKey b"
    using assms(2) by (simp add: pairKey_def)
  with assms(1) have "pairKey (c\<lparr>bookedAt := now, changedAt := now\<rparr>) \<in> pairKey ` set (bookings db)"
    by (metis imageI)
  from violatedIndex_pair [OF this] show ?thesis
    by (auto simp: insertBooking_def Let_def)
qed

lemma create_duplicate:
  assumes "b \<in> set (bookings db)" "pairKey b = (ev, setEmail raw)"
  shows "\<exists>err. Booking_save now db (newBooking j ev raw) = Inl err"
proof -
  have "pairKey b = pairKey (content (newBooking j ev raw))"
    using assms(2) by (simp add: pairKey_def newBooking_def)
  from insert_duplicate [OF assms(1) this, of now] obtain err where
    "insertBooking BookingSchema_indexes now db (content (newBooking j ev raw)) = Inl err" by blast
  then show ?thesis
    by (auto simp: Booking_save_def saveWith_def persistBooking_def newBooking_def
        split: option.splits)
qed

lemmas email_eval = emailRegex_test_def isLocalChar_def isAlnum_def isLowerAZ_def isDigit_def
  isLabel_def code_def

lemma example_email: "setEmail ''a@b.c'' = ''a@b.c'' \<and> emailRegex_test ''a@b.c''"
  by (simp add: setEmail_def toLowerCase_def toLowerChar_def trim_def isSpace_def email_eval)

lemma example_email': "emailRegex_test ''a@b.c''"
  by (simp add: example_email)

lemma example_no_email: "setEmail ''nobody'' = ''nobody'' \<and> \<not> emailRegex_test ''nobody''"
  by (simp add: setEmail_def toLowerCase_def toLowerChar_def trim_def isSpace_def email_eval)

lemma example_other_email: "emailRegex_test ''x@y.z''"
  by (simp add: email_eval)

lemma example_email_model_ts: "EMAIL_REGEX_test ''a@b.c''"
  by (simp add: EMAIL_REGEX_test_def isSpace_def code_def)

text \<open>The schema of booking.model.ts declares no unique index on eventId and email:
  there a second Booking of the same pair is stored.\<close>

lemma model_ts_stores_duplicate:
  "Booking_save_model_ts 6 oneBooking (newBooking 11 1 ''a@b.c'')
     = Inr (oneBooking\<lparr>bookings :=
         [firstBooking, firstBooking\<lparr>oid := 11, bookedAt := 6, changedAt := 6\<rparr>]\<rparr>)"
  by (simp add: Booking_save_model_ts_def saveWith_def validateBooking_def newBooking_def
      example_email example_email_model_ts bookingSchema_pre_save_def Event_findById_def
      persistBooking_def insertBooking_def Let_def bookingSchema_indexes_def
      oneBooking_def firstBooking_def indexKey_def)

section \<open>The claims\<close>

subsection \<open>Time normalization\<close>

text \<open>
  C1, as the code has it. For every time string accepted by the pattern (after
  trimming: an hour of one or two digits, a colon, a minute of two digits, optional
  seconds, optional AM or PM in either case), the hook converts a meridiem to the
  24-hour clock (PM adds 12 unless the hour is 12, AM turns 12 into 0) and, when the
  converted hour is at most 23 and the minute at most 59, rewrites the time as
  zero-padded HH:MM; otherwise the save fails with "Time out of range". The time
  stored by a successful save is the time so normalized. "2:30 PM" gives "14:30" and
  "12:00 AM" gives "00:00".
\<close>

theorem time_normalization:
  assumes "trim t = h @ '':'' @ m @ sec @ meridiemTail ws g3"
    and "length h = 1 \<or> length h = 2" and "list_all isDigit h"
    and "length m = 2" and "list_all isDigit m"
    and "secondsOk sec" and "meridiemOk ws g3"
  shows "normalizeTime t =
      (if 23 < hour24 (parseInt10 h) (map_option toUpperCase g3) \<or> 59 < parseInt10 m
       then Inl (TimeOutOfRange t)
       else Inr (digitsN 2 (hour24 (parseInt10 h) (map_option toUpperCase g3)) @ '':'' @ m))
    \<and> (eventSchema_pre_save impl doc = Inr doc'
         \<longrightarrow> normalizeTime (time (content doc)) = Inr (time (content doc')))
    \<and> normalizeTime ''2:30 PM'' = Inr ''14:30''
    \<and> normalizeTime ''12:00 AM'' = Inr ''00:00''"
proof -
  have "normalizeTime (time (content doc)) = Inr (time (content doc'))"
    if "eventSchema_pre_save impl doc = Inr doc'"
    using pre_save_content [OF that] by auto
  then show ?thesis
    using normalizeTime_pattern [OF assms] normalizeTime_afternoon normalizeTime_midnight
    by (simp add: Let_def)
qed

theorem time_normalization_witness:
  "trim '' 9:05:33 pm '' = ''9'' @ '':'' @ ''05'' @ '':33'' @ meridiemTail '' '' (Some ''pm'')
   \<and> length ''9'' = 1 \<and> list_all isDigit ''9'' \<and> length ''05'' = 2 \<and> list_all isDigit ''05''
   \<and> secondsOk '':33'' \<and> meridiemOk '' '' (Some ''pm'')
   \<and> normalizeTime '' 9:05:33 pm '' = Inr ''21:05''"
proof -
  have up: "toUpperCase ''pm'' = ''PM''" by code_simp
  have a1: "trim '' 9:05:33 pm '' = ''9'' @ '':'' @ ''05'' @ '':33'' @ meridiemTail '' '' (Some ''pm'')"
    by (simp add: trim_def isSpace_def code_def meridiemTail_def)
  have a2: "length ''9'' = 1 \<or> length ''9'' = 2" by simp
  have a3: "list_all isDigit ''9''" by (simp add: isDigit_def code_def)
  have a4: "length ''05'' = 2" by simp
  have a5: "list_all isDigit ''05''" by (simp add: isDigit_def code_def)
  have a6: "secondsOk '':33''" by (simp add: secondsOk_def isDigit_def code_def)
  have a7: "meridiemOk '' '' (Some ''pm'')" by (simp add: meridiemOk_def up isSpace_def code_def)
  have "normalizeTime '' 9:05:33 pm '' = Inr ''21:05''"
    using time_normalization [OF a1 a2 a3 a4 a5 a6 a7]
    by (simp add: up hour24_def parseInt10_def digitVal_def code_def digitsN_2 digitChar_def)
  with a1 a3 a4 a5 a6 a7 show ?thesis by simp
qed

text \<open>The claim as the specification states it fails: "25:00" is accepted by the
  pattern and is not rewritten, the save fails.\<close>

theorem time_accepted_but_out_of_range:
  "trim ''25:00'' = ''25'' @ '':'' @ ''00'' @ [] @ meridiemTail [] None
   \<and> length ''25'' = 2 \<and> list_all isDigit ''25'' \<and> length ''00'' = 2 \<and> list_all isDigit ''00''
   \<and> secondsOk [] \<and> meridiemOk [] None
   \<and> matchTime (trim ''25:00'') = Some (''25'', ''00'', None)
   \<and> normalizeTime ''25:00'' = Inl (TimeOutOfRange ''25:00'')"
  using normalizeTime_25 matchTime_25
  by (simp add: trim_def isSpace_def isDigit_def code_def meridiemTail_def meridiemOk_def
      secondsOk_def)

subsection \<open>The slug on save\<close>

text \<open>
  C2, as the code has it. On every save of an Event that is new or whose title has
  changed, the slug stored is the result of: lowercasing the title, removing every
  character that is not a lowercase letter, a digit, whitespace or a hyphen, trimming
  leading and trailing whitespace, then replacing every run of whitespace with a single
  hyphen. This derivation is deterministic (two such saves of the same title store the
  same slug), its result contains only lowercase letters, digits and hyphens, and the
  title "Hello, World!  2024" yields the slug "hello-world-2024".
\<close>

theorem slug_derivation:
  "(eventSchema_pre_save impl doc = Inr doc' \<and> (isNew doc \<or> isModified doc ''title'')
      \<longrightarrow> slug (content doc') = slugOfSpec (title (content doc)))
   \<and> slugify t = slugOfSpec t
   \<and> (eventSchema_pre_save impl1 doc1 = Inr doc1' \<and> (isNew doc1 \<or> isModified doc1 ''title'')
      \<and> eventSchema_pre_save impl2 doc2 = Inr doc2' \<and> (isNew doc2 \<or> isModified doc2 ''title'')
      \<and> title (content doc1) = title (content doc2)
      \<longrightarrow> slug (content doc1') = slug (content doc2'))
   \<and> (\<forall>c \<in> set (slugify t). c \<in> set smallLetters \<or> c \<in> set decimalDigits \<or> c = CHR ''-'')
   \<and> slugify ''Hello, World!  2024'' = ''hello-world-2024''"
proof -
  have s: "slug (content d') = slugify (title (content d))"
    if "eventSchema_pre_save i d = Inr d'" "isNew d \<or> isModified d ''title''"
    for i d d'
    using pre_save_content [OF that(1)] that(2) by auto
  have c: "\<forall>c \<in> set (slugify t). c \<in> set smallLetters \<or> c \<in> set decimalDigits \<or> c = CHR ''-''"
    using slugify_chars [of _ t] by (auto simp: smallLetters_isLowerAZ decimalDigits_isDigit)
  have r: "slugify u = slugOfSpec u" for u
    by (simp add: slugify_def slugOfSpec_def trim_def trimTrailing_rev trimLeading_dropWhile
        collapseSpaces_runs stripNonSlug_withoutOthers toLowerCase_lowercased)
  have 1: "eventSchema_pre_save impl doc = Inr doc' \<and> (isNew doc \<or> isModified doc ''title'')
      \<longrightarrow> slug (content doc') = slugOfSpec (title (content doc))"
    using s [of impl doc doc'] by (auto simp: r)
  have 2: "eventSchema_pre_save impl1 doc1 = Inr doc1' \<and> (isNew doc1 \<or> isModified doc1 ''title'')
      \<and> eventSchema_pre_save impl2 doc2 = Inr doc2' \<and> (isNew doc2 \<or> isModified doc2 ''title'')
      \<and> title (content doc1) = title (content doc2)
      \<longrightarrow> slug (content doc1') = slug (content doc2')"
    using s [of impl1 doc1 doc1'] s [of impl2 doc2 doc2'] by auto
  have e: "slugify ''Hello, World!  2024'' = ''hello-world-2024''" by code_simp
  from 1 2 c r [of t] e show ?thesis by blast
qed

theorem slug_derivation_witness:
  "eventSchema_pre_save isoOnly exampleEvent = Inr exampleSaved \<and> isNew exampleEvent
   \<and> slug (content exampleSaved) = slugOfSpec (title (content exampleEvent))
   \<and> slugOfSpec ''Hello, World!  2024'' = ''hello-world-2024''
   \<and> slug (content exampleSaved) = ''hello-world-2024''
   \<and> eventSchema_pre_save isoOnly retitledEvent = Inr retitledSaved
   \<and> isModified retitledEvent ''title''
   \<and> title (content retitledEvent) = ''! a !''
   \<and> slug (content retitledSaved) = slugOfSpec (title (content retitledEvent))
   \<and> slugOfSpec ''! a !'' = ''a''
   \<and> slug (content retitledSaved) = ''a''
   \<and> eventSchema_pre_save utcRuntime (exampleEvent\<lparr>isNew := False, modifiedPaths := [''title'']\<rparr>)
       = Inr (exampleSaved\<lparr>isNew := False, modifiedPaths := [''title'', ''slug'', ''time'']\<rparr>)
   \<and> isModified (exampleEvent\<lparr>isNew := False, modifiedPaths := [''title'']\<rparr>) ''title''
   \<and> slug (content exampleSaved)
       = slug (content (exampleSaved\<lparr>isNew := False,
           modifiedPaths := [''title'', ''slug'', ''time'']\<rparr>))
   \<and> CHR ''h'' \<in> set (slugify ''Hello, World!  2024'') \<and> CHR ''h'' \<in> set smallLetters"
proof -
  let ?doc2 = "exampleEvent\<lparr>isNew := False, modifiedPaths := [''title'']\<rparr>"
  let ?doc2' = "exampleSaved\<lparr>isNew := False, modifiedPaths := [''title'', ''slug'', ''time'']\<rparr>"
  have e1: "slugify ''Hello, World!  2024'' = ''hello-world-2024''" by code_simp
  have e2: "slugify ''! a !'' = ''a''" by (simp add: char_eval)
  have e3: "slugOfSpec ''Hello, World!  2024'' = ''hello-world-2024''" by code_simp
  have e4: "slugOfSpec ''! a !'' = ''a''" by code_simp
  have s1: "eventSchema_pre_save isoOnly exampleEvent = Inr exampleSaved"
    by (simp add: hook_eval exampleEvent_def exampleSaved_def normalizeDate_2025_03_05
        normalizeTime_afternoon e1)
  have s2: "eventSchema_pre_save utcRuntime ?doc2 = Inr ?doc2'"
    by (simp add: hook_eval exampleEvent_def exampleSaved_def normalizeDate_2025_03_05
        normalizeTime_afternoon e1)
  have s3: "eventSchema_pre_save isoOnly retitledEvent = Inr retitledSaved"
    by (simp add: hook_eval retitledEvent_def retitledSaved_def exampleEvent_def exampleSaved_def
        normalizeDate_2025_03_05 normalizeTime_1430 e2)
  have n: "isNew exampleEvent" by (simp add: exampleEvent_def)
  have m: "isModified retitledEvent ''title''" by (simp add: retitledEvent_def isModified_def)
  have m2: "isModified ?doc2 ''title''" by (simp add: isModified_def)
  have t: "title (content retitledEvent) = ''! a !''" by (simp add: retitledEvent_def)
  have tt: "title (content exampleEvent) = title (content ?doc2)" by simp
  have h: "CHR ''h'' \<in> set (slugify ''Hello, World!  2024'')" by (simp add: e1)
  note inst1 = slug_derivation [of isoOnly exampleEvent exampleSaved "''Hello, World!  2024''"
      isoOnly exampleEvent exampleSaved utcRuntime ?doc2 ?doc2']
  note inst2 = slug_derivation [of isoOnly retitledEvent retitledSaved "''! a !''"
      isoOnly exampleEvent exampleSaved utcRuntime ?doc2 ?doc2']
  from inst1 [THEN conjunct1] s1 n
  have a: "slug (content exampleSaved) = slugOfSpec (title (content exampleEvent))" by blast
  from inst2 [THEN conjunct1] s3 m
  have b: "slug (content retitledSaved) = slugOfSpec (title (content retitledEvent))" by blast
  from inst1 [THEN conjunct2, THEN conjunct2, THEN conjunct1] s1 n s2 m2 tt
  have g: "slug (content exampleSaved) = slug (content ?doc2')" by blast
  from inst1 [THEN conjunct2, THEN conjunct2, THEN conjunct2, THEN conjunct1] h
  have c: "CHR ''h'' \<in> set smallLetters \<or> CHR ''h'' \<in> set decimalDigits \<or> CHR ''h'' = CHR ''-''"
    by blast
  then have c': "CHR ''h'' \<in> set smallLetters" by (simp add: decimalDigits_def)
  have d: "slug (content exampleSaved) = ''hello-world-2024''" by (simp add: exampleSaved_def)
  have e: "slug (content retitledSaved) = ''a''" by (simp add: retitledSaved_def)
  from a b c' d e g h n m m2 t s1 s2 s3 e3 e4
  show ?thesis by blast
qed

text \<open>The claim as the specification states it, for every save, fails: a stored Event
  whose slug was set by hand is loaded, changed in its venue and saved; the title is
  unchanged, the hook does not derive the slug, and the slug stored is not the one
  derived from the title.\<close>

theorem hand_set_slug_is_stored:
  "\<not> isNew reloadedEvent \<and> \<not> isModified reloadedEvent ''title''
   \<and> eventSchema_pre_save isoOnly reloadedEvent = Inr reloadedEvent
   \<and> slug (content reloadedEvent) = ''spring-meeting''
   \<and> slugOfSpec (title (content reloadedEvent)) = ''hello-world-2024''"
proof -
  have "slugOfSpec ''Hello, World!  2024'' = ''hello-world-2024''" by code_simp
  moreover have "eventSchema_pre_save isoOnly reloadedEvent = Inr reloadedEvent"
    by (simp add: hook_eval reloadedEvent_def exampleEvent_def exampleSaved_def
        normalizeDate_2025_03_05 normalizeTime_1430)
  ultimately show ?thesis
    by (simp add: reloadedEvent_def exampleSaved_def exampleEvent_def isModified_def)
qed

subsection \<open>Date normalization\<close>

text \<open>
  C3 does not hold of the code. The date "+010000-01-01" is a date string that every
  runtime reads (an expanded year of the Date Time String Format): the save does not
  fail, and the date stored is "+010000-01-01", which is not of the form YYYY-MM-DD
  that the claim states and that the comments of event.model.ts promise (line 32 and
  56). \<open>toISOString\<close> prints a year beyond 9999 with a sign and six digits, and the
  hook stores what stands before the "T".
\<close>

theorem date_beyond_year_9999:
  "parseISODate ''+010000-01-01'' = Some 253402300800000
   \<and> Date_getTime isoOnly ''+010000-01-01'' = Some 253402300800000
   \<and> normalizeDate isoOnly ''+010000-01-01'' = Inr ''+010000-01-01''
   \<and> \<not> isCalendarForm ''+010000-01-01''
   \<and> date (content farEvent) = ''+010000-01-01''
   \<and> eventSchema_pre_save isoOnly farEvent
       = Inr (exampleSaved\<lparr>content := (content exampleSaved)\<lparr>date := ''+010000-01-01''\<rparr>\<rparr>)"
proof -
  have p: "parseISODate ''+010000-01-01'' = Some 253402300800000"
    using parseISODate_isoDateString [of 2932897]
    by (simp add: isoDateString_2932897 msPerDay_def)
  then have "Date_getTime isoOnly ''+010000-01-01'' = Some 253402300800000"
    by (simp add: Date_getTime_def TimeClip_def)
  moreover have "date (content farEvent) = ''+010000-01-01''" by (simp add: farEvent_def)
  moreover have "slugify ''Hello, World!  2024'' = ''hello-world-2024''" by code_simp
  then have "eventSchema_pre_save isoOnly farEvent
       = Inr (exampleSaved\<lparr>content := (content exampleSaved)\<lparr>date := ''+010000-01-01''\<rparr>\<rparr>)"
    by (simp add: hook_eval farEvent_def exampleEvent_def exampleSaved_def
        normalizeDate_year_10000 normalizeTime_afternoon)
  ultimately show ?thesis
    using p by (simp add: normalizeDate_year_10000 not_isCalendarForm_year_10000)
qed

text \<open>The example "March 5, 2025" is not in the Date Time String Format, and a
  runtime reads it in its local time zone: read as local midnight one hour ahead of
  UTC, it is stored as the day before.\<close>

lemma date_example_in_another_zone:
  "normalizeDate cetRuntime ''March 5, 2025'' = Inr ''2025-03-04''"
  by (rule normalizeDate_March_cet)

subsection \<open>Bookings of missing Events\<close>

text \<open>
  C4, as the code has it. For every Booking save that creates the Booking or changes
  its eventId, if the eventId does not correspond to any stored Event, the save fails
  and the Booking is not persisted, regardless of whether the email field is valid.
  Under the hook of part_000 the error is a ValidationError; under the hook of
  booking.model.ts every save of such a Booking fails.
\<close>

theorem missing_event_rejected:
  "(eventId (content doc) \<notin> set (events db) \<and> (isNew doc \<or> isModified doc ''eventId'')
      \<longrightarrow> (\<exists>err. Booking_save now db doc = Inl err \<and> isValidationError err))
   \<and> (eventId (content doc) \<notin> set (events db)
      \<longrightarrow> (\<exists>err. Booking_save_model_ts now db doc = Inl err))"
  using save_missing [of doc db now] save_model_ts_missing [of doc db now] by blast

theorem missing_event_rejected_witness:
  "eventId (content (newBooking 11 2 ''a@b.c'')) \<notin> set (events oneEvent)
   \<and> isNew (newBooking 11 2 ''a@b.c'')
   \<and> (\<exists>err. Booking_save 6 oneEvent (newBooking 11 2 ''a@b.c'') = Inl err
          \<and> isValidationError err)
   \<and> (\<exists>err. Booking_save_model_ts 6 oneEvent (newBooking 11 2 ''a@b.c'') = Inl err)
   \<and> Booking_save 6 oneEvent (newBooking 11 2 ''a@b.c'')
       = Inl (Renamed ''ValidationError'' (EventDoesNotExist 2))
   \<and> Booking_save 6 oneEvent (newBooking 11 2 ''nobody'') = Inl (EmailNotValid ''nobody'')
   \<and> Booking_save_model_ts 6 oneEvent (newBooking 11 2 ''a@b.c'')
       = Inl (ReferencedEventDoesNotExist 2)"
proof -
  have h1: "eventId (content (newBooking 11 2 ''a@b.c'')) \<notin> set (events oneEvent)"
    by (simp add: newBooking_def oneEvent_def)
  have n: "isNew (newBooking 11 2 ''a@b.c'')" by (simp add: newBooking_def)
  have e1: "Booking_save 6 oneEvent (newBooking 11 2 ''a@b.c'')
      = Inl (Renamed ''ValidationError'' (EventDoesNotExist 2))"
    by (simp add: Booking_save_def saveWith_def validateBooking_def newBooking_def
        example_email BookingSchema_pre_save_def Event_findById_def oneEvent_def isModified_def)
  have e2: "Booking_save 6 oneEvent (newBooking 11 2 ''nobody'') = Inl (EmailNotValid ''nobody'')"
    by (simp add: Booking_save_def saveWith_def validateBooking_def newBooking_def
        example_no_email)
  have e3: "Booking_save_model_ts 6 oneEvent (newBooking 11 2 ''a@b.c'')
      = Inl (ReferencedEventDoesNotExist 2)"
    by (simp add: Booking_save_model_ts_def saveWith_def validateBooking_def newBooking_def
        example_email example_email_model_ts bookingSchema_pre_save_def Event_findById_def
        oneEvent_def)
  note inst = missing_event_rejected [of "newBooking 11 2 ''a@b.c''" oneEvent 6]
  from inst [THEN conjunct1] h1 n
  have a: "\<exists>err. Booking_save 6 oneEvent (newBooking 11 2 ''a@b.c'') = Inl err
      \<and> isValidationError err" by blast
  from inst [THEN conjunct2] h1
  have b: "\<exists>err. Booking_save_model_ts 6 oneEvent (newBooking 11 2 ''a@b.c'') = Inl err"
    by blast
  from a b h1 n e1 e2 e3 show ?thesis by blast
qed

text \<open>The claim as the specification states it fails in two ways. The Event of a
  stored Booking has gone; the Booking is loaded, its email is changed and it is saved:
  the eventId is untouched, the hook of part_000 skips the lookup, and the Booking is
  written with its new email (saved without any change, the same Booking passes the
  hook as well; then nothing is written). And a new Booking of a missing Event is
  refused by the hook of booking.model.ts with an error that is not a
  ValidationError.\<close>

theorem stale_booking_saved_and_plain_error:
  "eventId (content editedBooking) \<notin> set (events strandedBooking)
   \<and> Booking_save 9 strandedBooking editedBooking
       = Inr (strandedBooking\<lparr>bookings := [firstBooking\<lparr>email := ''x@y.z'', changedAt := 9\<rparr>]\<rparr>)
   \<and> eventId (content loadedBooking) \<notin> set (events strandedBooking)
   \<and> Booking_save 9 strandedBooking loadedBooking = Inr strandedBooking
   \<and> eventId (content (newBooking 11 2 ''a@b.c'')) \<notin> set (events oneEvent)
   \<and> Booking_save_model_ts 6 oneEvent (newBooking 11 2 ''a@b.c'')
       = Inl (ReferencedEventDoesNotExist 2)
   \<and> \<not> isValidationError (ReferencedEventDoesNotExist 2)"
proof -
  have a: "Booking_save 9 strandedBooking editedBooking
       = Inr (strandedBooking\<lparr>bookings := [firstBooking\<lparr>email := ''x@y.z'', changedAt := 9\<rparr>]\<rparr>)"
    by (simp add: Booking_save_def saveWith_def validateBooking_def editedBooking_def
        firstBooking_def strandedBooking_def example_other_email BookingSchema_pre_save_def
        isModified_def persistBooking_def updateBooking_def updatedRow_def Let_def
        BookingSchema_indexes_def)
  have b: "Booking_save 9 strandedBooking loadedBooking = Inr strandedBooking"
    by (simp add: Booking_save_def saveWith_def validateBooking_def loadedBooking_def
        firstBooking_def strandedBooking_def example_email' BookingSchema_pre_save_def
        isModified_def persistBooking_def updateBooking_def)
  have c: "Booking_save_model_ts 6 oneEvent (newBooking 11 2 ''a@b.c'')
      = Inl (ReferencedEventDoesNotExist 2)"
    by (simp add: Booking_save_model_ts_def saveWith_def validateBooking_def newBooking_def
        example_email example_email_model_ts bookingSchema_pre_save_def Event_findById_def
        oneEvent_def)
  from a b c show ?thesis
    by (simp add: editedBooking_def loadedBooking_def firstBooking_def strandedBooking_def
        newBooking_def oneEvent_def)
qed

subsection \<open>Saves that leave eventId alone\<close>

text \<open>
  C5, as the code has it. The hook of part_000 looks the Event up exactly when the
  Booking is new or its eventId is modified: on a save in which eventId is neither
  newly set nor modified it makes no lookup in the Event collection and lets the save
  pass. The hook of booking.model.ts makes the lookup on every save.
\<close>

theorem lookup_when_eventId_is_new_or_modified:
  "(\<not> isNew doc \<and> \<not> isModified doc ''eventId''
      \<longrightarrow> snd (BookingSchema_pre_save db doc) = 0 \<and> fst (BookingSchema_pre_save db doc) = None)
   \<and> (isNew doc \<or> isModified doc ''eventId'' \<longrightarrow> snd (BookingSchema_pre_save db doc) = 1)
   \<and> snd (bookingSchema_pre_save db doc) = 1"
  using hook_skips [of doc db] hook_looks_up [of doc db] hook_model_ts_lookup [of db doc]
  by simp

theorem lookup_when_eventId_is_new_or_modified_witness:
  "\<not> isNew loadedBooking \<and> \<not> isModified loadedBooking ''eventId''
   \<and> snd (BookingSchema_pre_save strandedBooking loadedBooking) = 0
   \<and> fst (BookingSchema_pre_save strandedBooking loadedBooking) = None
   \<and> isNew (newBooking 11 1 ''a@b.c'')
   \<and> snd (BookingSchema_pre_save oneEvent (newBooking 11 1 ''a@b.c'')) = 1
   \<and> snd (bookingSchema_pre_save strandedBooking loadedBooking) = 1"
proof -
  have h: "\<not> isNew loadedBooking \<and> \<not> isModified loadedBooking ''eventId''"
    by (simp add: loadedBooking_def isModified_def)
  have n: "isNew (newBooking 11 1 ''a@b.c'')" by (simp add: newBooking_def)
  note inst1 = lookup_when_eventId_is_new_or_modified [of loadedBooking strandedBooking]
  note inst2 = lookup_when_eventId_is_new_or_modified [of "newBooking 11 1 ''a@b.c''" oneEvent]
  from inst1 h have a: "snd (BookingSchema_pre_save strandedBooking loadedBooking) = 0
      \<and> fst (BookingSchema_pre_save strandedBooking loadedBooking) = None" by blast
  from inst2 n have b: "snd (BookingSchema_pre_save oneEvent (newBooking 11 1 ''a@b.c'')) = 1"
    by blast
  from inst1 have c: "snd (bookingSchema_pre_save strandedBooking loadedBooking) = 1" by blast
  from a b c h n show ?thesis by blast
qed

text \<open>The claim as the specification states it fails for the hook of
  booking.model.ts: a stored Booking is loaded and saved with its eventId untouched,
  and the Event collection is queried.\<close>

theorem unchanged_eventId_looked_up:
  "\<not> isNew loadedBooking \<and> \<not> isModified loadedBooking ''eventId''
   \<and> bookingSchema_pre_save oneBooking loadedBooking = (None, 1)"
  by (simp add: loadedBooking_def isModified_def bookingSchema_pre_save_def Event_findById_def
      oneBooking_def firstBooking_def)

subsection \<open>One Booking for an Event and an email\<close>

text \<open>
  C6. At most one Booking is stored for a pair of eventId and email: every save (a
  creation or an update) of a database without such duplicates leaves it without
  duplicates; after a Booking has been created, creating another one with the same
  eventId and email fails with a constraint violation; and no creation succeeds while a
  Booking of the same pair is stored. A database without Bookings has no duplicates.
\<close>

theorem one_booking_per_event_and_email:
  "(uniqueIds db \<and> uniqueBookings db \<and> Booking_save now db doc = Inr db'
      \<longrightarrow> uniqueIds db' \<and> uniqueBookings db')
   \<and> (Booking_save now db (newBooking i ev raw) = Inr db1 \<and> setEmail raw2 = setEmail raw
      \<longrightarrow> (\<exists>paths. Booking_save now2 db1 (newBooking j ev raw2) = Inl (DuplicateKey paths)
             \<and> error_class_of (DuplicateKey paths) = ConstraintViolation))
   \<and> (b \<in> set (bookings db) \<and> pairKey b = (ev, setEmail raw)
      \<longrightarrow> (\<exists>err. Booking_save now db (newBooking j ev raw) = Inl err))
   \<and> uniqueIds (db\<lparr>bookings := []\<rparr>) \<and> uniqueBookings (db\<lparr>bookings := []\<rparr>)"
proof -
  have 1: "uniqueIds db' \<and> uniqueBookings db'"
    if "uniqueIds db" "uniqueBookings db" "Booking_save now db doc = Inr db'"
    using that by (rule save_unique)
  have 2: "\<exists>paths. Booking_save now2 db1 (newBooking j ev raw2) = Inl (DuplicateKey paths)
      \<and> error_class_of (DuplicateKey paths) = ConstraintViolation"
    if "Booking_save now db (newBooking i ev raw) = Inr db1" "setEmail raw2 = setEmail raw"
    using create_twice [OF that] by simp
  have 3: "\<exists>err. Booking_save now db (newBooking j ev raw) = Inl err"
    if "b \<in> set (bookings db)" "pairKey b = (ev, setEmail raw)"
    using that by (rule create_duplicate)
  show ?thesis
    using 1 2 3 by (simp add: uniqueIds_def uniqueBookings_def)
qed

theorem one_booking_per_event_and_email_witness:
  "uniqueIds oneEvent \<and> uniqueBookings oneEvent
   \<and> Booking_save 5 oneEvent (newBooking 10 1 ''a@b.c'') = Inr oneBooking
   \<and> uniqueIds oneBooking \<and> uniqueBookings oneBooking
   \<and> setEmail '' A@B.c'' = setEmail ''a@b.c''
   \<and> (\<exists>paths. Booking_save 6 oneBooking (newBooking 11 1 '' A@B.c'') = Inl (DuplicateKey paths)
          \<and> error_class_of (DuplicateKey paths) = ConstraintViolation)
   \<and> Booking_save 6 oneBooking (newBooking 11 1 ''a@b.c'')
       = Inl (DuplicateKey [''eventId'', ''email''])"
proof -
  have u: "uniqueIds oneEvent" "uniqueBookings oneEvent"
    by (simp_all add: uniqueIds_def uniqueBookings_def oneEvent_def)
  have s: "Booking_save 5 oneEvent (newBooking 10 1 ''a@b.c'') = Inr oneBooking"
    by (simp add: Booking_save_def saveWith_def validateBooking_def newBooking_def
        example_email BookingSchema_pre_save_def Event_findById_def oneEvent_def isModified_def
        persistBooking_def insertBooking_def Let_def BookingSchema_indexes_def
        oneBooking_def firstBooking_def)
  have e: "setEmail '' A@B.c'' = setEmail ''a@b.c''" by code_simp
  have d: "Booking_save 6 oneBooking (newBooking 11 1 ''a@b.c'')
      = Inl (DuplicateKey [''eventId'', ''email''])"
    by (simp add: Booking_save_def saveWith_def validateBooking_def newBooking_def
        example_email BookingSchema_pre_save_def Event_findById_def isModified_def
        persistBooking_def insertBooking_def Let_def BookingSchema_indexes_def
        oneBooking_def firstBooking_def indexKey_def)
  note inst = one_booking_per_event_and_email [of oneEvent 5 "newBooking 10 1 ''a@b.c''"
      oneBooking 10 1 "''a@b.c''" oneBooking "'' A@B.c''" 6 11]
  from inst [THEN conjunct1] u s have a: "uniqueIds oneBooking \<and> uniqueBookings oneBooking"
    by blast
  from inst [THEN conjunct2, THEN conjunct1] s e
  have b: "\<exists>paths. Booking_save 6 oneBooking (newBooking 11 1 '' A@B.c'') = Inl (DuplicateKey paths)
      \<and> error_class_of (DuplicateKey paths) = ConstraintViolation"
    by blast
  from a b u s e d show ?thesis by blast
qed

subsection \<open>The connection\<close>

text \<open>
  C7, as the code has it. After an attempt to connect has failed, the promise of that
  attempt stays in the cache: every later call of connectToDatabase awaits the same
  rejected promise, fails with the same reason, and starts no new attempt.
\<close>

theorem failed_attempt_is_kept:
  assumes "connectToDatabase outcome cached = (Inl e, cached')"
  shows "promise cached' \<noteq> None
    \<and> connectToDatabase outcome cached' = (Inl e, cached')
    \<and> attempts (snd (connectToDatabase outcome cached')) = attempts cached'"
  using connect_failed [OF assms] by simp

theorem failed_attempt_is_kept_witness:
  "connectToDatabase refusedOnce emptyCache = (Inl ''ECONNREFUSED'', poisonedCache)
   \<and> promise poisonedCache \<noteq> None
   \<and> connectToDatabase refusedOnce poisonedCache = (Inl ''ECONNREFUSED'', poisonedCache)"
proof -
  have f: "connectToDatabase refusedOnce emptyCache = (Inl ''ECONNREFUSED'', poisonedCache)"
    by (simp add: connectToDatabase_def refusedOnce_def emptyCache_def poisonedCache_def)
  from failed_attempt_is_kept [OF f] f show ?thesis by simp
qed

text \<open>The claim as the specification states it fails: the first attempt is refused,
  the cache still holds its promise, and the second call fails again although a second
  attempt would have been accepted; \<open>mongoose.connect\<close> was called once.\<close>

theorem failed_attempt_not_cleared:
  "connectToDatabase refusedOnce emptyCache = (Inl ''ECONNREFUSED'', poisonedCache)
   \<and> promise poisonedCache = Some 0
   \<and> refusedOnce 1 = Inr 7
   \<and> fst (connectToDatabase refusedOnce poisonedCache) = Inl ''ECONNREFUSED''
   \<and> attempts (snd (connectToDatabase refusedOnce poisonedCache)) = 1"
  by (simp add: connectToDatabase_def refusedOnce_def emptyCache_def poisonedCache_def)

subsection \<open>The frame of the hook\<close>

text \<open>
  C8. The hook derives the slug only when the Event is new or its title has changed:
  a save of a stored Event whose title is unchanged leaves the slug as it is. The hook
  never changes a field other than slug, date and time (the timestamps are among the
  fields it leaves alone), and it marks no path other than these three as modified.
\<close>

theorem slug_regenerated_only_on_title_change:
  assumes "eventSchema_pre_save impl doc = Inr doc'"
  shows "(\<not> isNew doc \<and> \<not> isModified doc ''title'' \<longrightarrow> slug (content doc') = slug (content doc))
    \<and> (slug (content doc') \<noteq> slug (content doc) \<longrightarrow> isNew doc \<or> isModified doc ''title'')
    \<and> content doc' = (content doc)\<lparr>slug := slug (content doc'), date := date (content doc'),
         time := time (content doc')\<rparr>
    \<and> title (content doc') = title (content doc)
    \<and> createdAt (content doc') = createdAt (content doc)
    \<and> updatedAt (content doc') = updatedAt (content doc)
    \<and> isNew doc' = isNew doc
    \<and> set (modifiedPaths doc) \<subseteq> set (modifiedPaths doc')
    \<and> set (modifiedPaths doc') \<subseteq> set (modifiedPaths doc) \<union> {''slug'', ''date'', ''time''}"
proof -
  from pre_save_content [OF assms] obtain d t where
    c: "content doc' = (content doc)
            \<lparr>slug := (if isNew doc \<or> isModified doc ''title''
                      then slugify (title (content doc)) else slug (content doc)),
             date := d, time := t\<rparr>"
    and n: "isNew doc' = isNew doc"
    by blast
  have 1: "\<not> isNew doc \<and> \<not> isModified doc ''title'' \<longrightarrow> slug (content doc') = slug (content doc)"
    by (simp add: c)
  have 2: "content doc' = (content doc)\<lparr>slug := slug (content doc'), date := date (content doc'),
         time := time (content doc')\<rparr>"
    by (simp add: c)
  have 3: "title (content doc') = title (content doc)"
    "createdAt (content doc') = createdAt (content doc)"
    "updatedAt (content doc') = updatedAt (content doc)"
    by (simp_all add: c)
  from 1 2 3 n pre_save_paths [OF assms] show ?thesis by blast
qed

theorem slug_regenerated_only_on_title_change_witness:
  "eventSchema_pre_save isoOnly reloadedEvent = Inr reloadedEvent
   \<and> \<not> isNew reloadedEvent \<and> \<not> isModified reloadedEvent ''title''
   \<and> slug (content reloadedEvent) = ''spring-meeting''
   \<and> slugify (title (content reloadedEvent)) = ''hello-world-2024''
   \<and> eventSchema_pre_save isoOnly retitledEvent = Inr retitledSaved
   \<and> modifiedPaths retitledEvent = [''title'']
   \<and> modifiedPaths retitledSaved = [''title'', ''slug'']
   \<and> set (modifiedPaths retitledSaved)
       \<subseteq> set (modifiedPaths retitledEvent) \<union> {''slug'', ''date'', ''time''}
   \<and> venue (content retitledSaved) = venue (content retitledEvent)"
proof -
  have r: "eventSchema_pre_save isoOnly reloadedEvent = Inr reloadedEvent"
    by (simp add: hook_eval reloadedEvent_def exampleEvent_def exampleSaved_def
        normalizeDate_2025_03_05 normalizeTime_1430)
  have "slugify ''! a !'' = ''a''" by (simp add: char_eval)
  then have r2: "eventSchema_pre_save isoOnly retitledEvent = Inr retitledSaved"
    by (simp add: hook_eval retitledEvent_def retitledSaved_def exampleEvent_def exampleSaved_def
        normalizeDate_2025_03_05 normalizeTime_1430)
  have f: "\<not> isNew reloadedEvent" "\<not> isModified reloadedEvent ''title''"
    by (simp_all add: reloadedEvent_def isModified_def)
  from slug_regenerated_only_on_title_change [OF r] f
  have "slug (content reloadedEvent) = slug (content reloadedEvent)" by blast
  moreover have "slug (content reloadedEvent) = ''spring-meeting''"
    by (simp add: reloadedEvent_def)
  moreover have "slugify (title (content reloadedEvent)) = ''hello-world-2024''"
    by (simp add: reloadedEvent_def exampleSaved_def exampleEvent_def slugify_hello)
  moreover from slug_regenerated_only_on_title_change [OF r2]
  have "set (modifiedPaths retitledSaved)
       \<subseteq> set (modifiedPaths retitledEvent) \<union> {''slug'', ''date'', ''time''}" by blast
  moreover have "modifiedPaths retitledEvent = [''title'']"
    "modifiedPaths retitledSaved = [''title'', ''slug'']"
    "venue (content retitledSaved) = venue (content retitledEvent)"
    by (simp_all add: retitledEvent_def retitledSaved_def)
  ultimately show ?thesis using r r2 f by blast
qed

subsection \<open>Idempotence\<close>

text \<open>
  C9. Time normalization returns every string it has produced unchanged, and so does
  date normalization; hence a save of an Event whose date and time come from a
  successful save succeeds and leaves date and time as they are.
\<close>

theorem normalization_idempotent:
  "(normalizeTime t = Inr t' \<longrightarrow> normalizeTime t' = Inr t')
   \<and> (normalizeDate impl d = Inr d' \<longrightarrow> normalizeDate impl d' = Inr d')
   \<and> (eventSchema_pre_save impl doc = Inr doc' \<and> content again = content doc'
        \<longrightarrow> (\<exists>r. eventSchema_pre_save impl again = Inr r
               \<and> date (content r) = date (content doc')
               \<and> time (content r) = time (content doc')))"
proof -
  have "\<exists>r. eventSchema_pre_save impl again = Inr r
      \<and> date (content r) = date (content doc') \<and> time (content r) = time (content doc')"
    if s: "eventSchema_pre_save impl doc = Inr doc'" and c: "content again = content doc'"
  proof -
    from pre_save_content [OF s] obtain d1 t1 where
      d: "normalizeDate impl (date (content doc)) = Inr d1" and
      t: "normalizeTime (time (content doc)) = Inr t1" and
      dd: "date (content doc') = d1" and tt: "time (content doc') = t1"
      by auto
    from normalizeDate_idem [OF d] normalizeTime_idem [OF t] c dd tt
    have "normalizeDate impl (date (content again)) = Inr d1"
      "normalizeTime (time (content again)) = Inr t1"
      by simp_all
    from pre_save_succeeds [OF this] dd tt show ?thesis by simp
  qed
  then show ?thesis
    using normalizeTime_idem [of t t'] normalizeDate_idem [of impl d d'] by blast
qed

theorem normalization_idempotent_witness:
  "normalizeTime ''2:30 PM'' = Inr ''14:30'' \<and> normalizeTime ''14:30'' = Inr ''14:30''
   \<and> normalizeDate utcRuntime ''March 5, 2025'' = Inr ''2025-03-05''
   \<and> normalizeDate utcRuntime ''2025-03-05'' = Inr ''2025-03-05''
   \<and> eventSchema_pre_save utcRuntime exampleEvent = Inr exampleSaved
   \<and> content (exampleSaved\<lparr>isNew := False\<rparr>) = content exampleSaved
   \<and> (\<exists>r. eventSchema_pre_save utcRuntime (exampleSaved\<lparr>isNew := False\<rparr>) = Inr r
          \<and> date (content r) = ''2025-03-05'' \<and> time (content r) = ''14:30'')"
proof -
  have i: "utcRuntime ''March 5, 2025'' = Some 1741132800000" by (simp add: utcRuntime_def)
  have m: "normalizeDate utcRuntime ''March 5, 2025'' = Inr ''2025-03-05''"
    by (rule normalizeDate_March [where impl = utcRuntime, OF i]) simp_all
  note inst = normalization_idempotent [of "''2:30 PM''" "''14:30''" utcRuntime "''March 5, 2025''"
      "''2025-03-05''" exampleEvent exampleSaved "exampleSaved\<lparr>isNew := False\<rparr>"]
  from inst normalizeTime_afternoon have a: "normalizeTime ''14:30'' = Inr ''14:30''" by blast
  from inst m have b: "normalizeDate utcRuntime ''2025-03-05'' = Inr ''2025-03-05''" by blast
  have c: "content (exampleSaved\<lparr>isNew := False\<rparr>) = content exampleSaved" by simp
  from inst example_saved [of utcRuntime] c
  have "\<exists>r. eventSchema_pre_save utcRuntime (exampleSaved\<lparr>isNew := False\<rparr>) = Inr r
      \<and> date (content r) = date (content exampleSaved)
      \<and> time (content r) = time (content exampleSaved)" by blast
  then have d: "\<exists>r. eventSchema_pre_save utcRuntime (exampleSaved\<lparr>isNew := False\<rparr>) = Inr r
      \<and> date (content r) = ''2025-03-05'' \<and> time (content r) = ''14:30''"
    by (simp add: exampleSaved_def)
  from a b c d m normalizeTime_afternoon example_saved [of utcRuntime] show ?thesis by simp
qed

subsection \<open>Hyphens in the slug\<close>

text \<open>
  C10. Slug derivation keeps the hyphens of the title and collapses runs of whitespace
  only, never runs of hyphens: the slug has at least as many hyphens as the title, a
  title without whitespace keeps every character that is not stripped, and there are
  titles whose slug has consecutive, leading or trailing hyphens ("a - b" gives
  "a---b").
\<close>

theorem slug_keeps_hyphens:
  "hyphens t \<le> hyphens (slugify t)
   \<and> (\<not> list_ex isSpace t \<longrightarrow> slugify t = stripNonSlug (toLowerCase t))
   \<and> slugify ''a - b'' = ''a---b''
   \<and> slugify ''-a-'' = ''-a-''
   \<and> slugify ''a--b'' = ''a--b''"
  using hyphens_slugify [of t] slugify_no_space [of t]
    slugify_spaced_hyphen slugify_outer_hyphens slugify_double_hyphen
  by blast

theorem slug_keeps_hyphens_witness:
  "\<not> list_ex isSpace ''a--b''
   \<and> hyphens ''a--b'' \<le> hyphens (slugify ''a--b'')
   \<and> slugify ''a--b'' = stripNonSlug (toLowerCase ''a--b'')"
proof -
  have ns: "\<not> list_ex isSpace ''a--b''" by (simp add: isSpace_def code_def)
  from slug_keeps_hyphens [of "''a--b''"] ns show ?thesis by blast
qed

end
